theory Spec2Isabelle
  imports Main
begin

section \<open>Tile kinds, categories and scores (game/types.ts)\<close>

text \<open>
  The four base categories a player can place, and the closed enumeration of tile
  kinds. The constructors carry the string literals of the TypeScript unions.
\<close>

datatype BaseCategory = R | L | C | E

datatype TileType =
    house | slums | hotel | villa | tier2_residential | highrise
  | yard | sports | plaza | park | playground | cinema
  | shop | shopping_center | restaurant | bank
  | school | highschool | university

fun tileToCategory :: "TileType \<Rightarrow> BaseCategory" where
  "tileToCategory house = R"
| "tileToCategory slums = R"
| "tileToCategory hotel = R"
| "tileToCategory villa = R"
| "tileToCategory tier2_residential = R"
| "tileToCategory highrise = R"
| "tileToCategory yard = L"
| "tileToCategory sports = L"
| "tileToCategory plaza = L"
| "tileToCategory park = L"
| "tileToCategory playground = L"
| "tileToCategory cinema = L"
| "tileToCategory shop = C"
| "tileToCategory shopping_center = C"
| "tileToCategory restaurant = C"
| "tileToCategory bank = C"
| "tileToCategory school = E"
| "tileToCategory highschool = E"
| "tileToCategory university = E"

fun categoryToDefaultTile :: "BaseCategory \<Rightarrow> TileType" where
  "categoryToDefaultTile R = house"
| "categoryToDefaultTile L = yard"
| "categoryToDefaultTile C = shop"
| "categoryToDefaultTile E = school"

text \<open>
  \<^verbatim>\<open>upgradeScores\<close> is a partial record: the four default kinds have no entry.
\<close>

fun upgradeScores :: "TileType \<Rightarrow> int option" where
  "upgradeScores slums = Some (- 6)"
| "upgradeScores hotel = Some 14"
| "upgradeScores villa = Some 18"
| "upgradeScores tier2_residential = Some 12"
| "upgradeScores highrise = Some 40"
| "upgradeScores sports = Some 8"
| "upgradeScores plaza = Some 14"
| "upgradeScores park = Some 24"
| "upgradeScores shopping_center = Some 16"
| "upgradeScores restaurant = Some 20"
| "upgradeScores bank = Some 30"
| "upgradeScores playground = Some 4"
| "upgradeScores cinema = Some 10"
| "upgradeScores highschool = Some 18"
| "upgradeScores university = Some 35"
| "upgradeScores house = None"
| "upgradeScores yard = None"
| "upgradeScores shop = None"
| "upgradeScores school = None"

text \<open>
  An upgrade check either does not apply to the current kind, or yields its ordered
  list of conditions. Only the \<^verbatim>\<open>met\<close> flag of each condition is modelled; the
  \<^verbatim>\<open>desc\<close> text is display material.
\<close>

datatype UpgradeResult = cannot_upgrade | can_upgrade "bool list"

record Position =
  superblockRow :: int
  superblockCol :: int
  cellRow :: int
  cellCol :: int

section \<open>The grid and its accessors (game/gameStore.ts)\<close>

text \<open>
  \<^verbatim>\<open>grid[superblockRow][superblockCol][cellIndex]\<close>: three rows of three superblocks of
  nine slots, a slot being \<^verbatim>\<open>null\<close> or a tile kind.
\<close>

type_synonym Grid = "TileType option list list list"

record GameStore =
  grid :: Grid
  deck :: "BaseCategory list"
  score :: int
  turn :: nat
  hoveredCell :: "Position option"

definition DECK_SIZE :: nat where
  "DECK_SIZE = 5"

definition MAX_UPGRADES :: nat where
  "MAX_UPGRADES = 10000"

definition TOTAL_CELLS :: nat where
  "TOTAL_CELLS = 3 * 3 * 3 * 3"

text \<open>
  Every component of a position is documented as 0-2 (\<^verbatim>\<open>types.ts\<close>). The array reads
  and writes of the source are modelled on that domain; outside it \<open>getCell\<close> reads no
  tile and \<open>setCell\<close> writes nothing, and every statement below about a position supplied
  from outside assumes \<open>valid_pos\<close>.
\<close>

definition valid_pos :: "Position \<Rightarrow> bool" where
  "valid_pos p \<longleftrightarrow>
     0 \<le> superblockRow p \<and> superblockRow p < 3 \<and> 0 \<le> superblockCol p \<and> superblockCol p < 3 \<and>
     0 \<le> cellRow p \<and> cellRow p < 3 \<and> 0 \<le> cellCol p \<and> cellCol p < 3"

definition grid_wf :: "Grid \<Rightarrow> bool" where
  "grid_wf g \<longleftrightarrow> length g = 3 \<and> (\<forall>row \<in> set g. length row = 3 \<and> (\<forall>sb \<in> set row. length sb = 9))"

definition getCell :: "Grid \<Rightarrow> Position \<Rightarrow> TileType option" where
  "getCell g pos =
     (if valid_pos pos
      then g ! nat (superblockRow pos) ! nat (superblockCol pos) ! nat (cellRow pos * 3 + cellCol pos)
      else None)"

definition setCell :: "Grid \<Rightarrow> Position \<Rightarrow> TileType option \<Rightarrow> Grid" where
  "setCell g pos tile =
     (if valid_pos pos
      then (let r = nat (superblockRow pos); c = nat (superblockCol pos);
                cellIndex = nat (cellRow pos * 3 + cellCol pos)
            in g[r := (g ! r)[c := (g ! r ! c)[cellIndex := tile]]])
      else g)"

definition directions :: "(int \<times> int) list" where
  "directions = [(- 1, 0), (1, 0), (0, - 1), (0, 1)]"

definition getAdjacentCells :: "Grid \<Rightarrow> Position \<Rightarrow> (Position \<times> TileType option) list" where
  "getAdjacentCells g pos =
     concat (map (\<lambda>(dr, dc).
       (let newRow = cellRow pos + dr; newCol = cellCol pos + dc
        in if newRow \<ge> 0 \<and> newRow < 3 \<and> newCol \<ge> 0 \<and> newCol < 3
           then [(pos\<lparr>cellRow := newRow, cellCol := newCol\<rparr>,
                  getCell g (pos\<lparr>cellRow := newRow, cellCol := newCol\<rparr>))]
           else [])) directions)"

text \<open>The nine positions of a superblock in row-major order (the nested 0..2 loops).\<close>

definition superblockPositions :: "int \<Rightarrow> int \<Rightarrow> Position list" where
  "superblockPositions sbRow sbCol =
     concat (map (\<lambda>r. map (\<lambda>c.
       \<lparr>superblockRow = sbRow, superblockCol = sbCol, cellRow = r, cellCol = c\<rparr>) [0, 1, 2]) [0, 1, 2])"

definition getSuperblockCells :: "Grid \<Rightarrow> int \<Rightarrow> int \<Rightarrow> (Position \<times> TileType option) list" where
  "getSuperblockCells g sbRow sbCol = map (\<lambda>p. (p, getCell g p)) (superblockPositions sbRow sbCol)"

definition getAdjacentSuperblocks :: "int \<Rightarrow> int \<Rightarrow> (int \<times> int) list" where
  "getAdjacentSuperblocks sbRow sbCol =
     concat (map (\<lambda>(dr, dc).
       (let newRow = sbRow + dr; newCol = sbCol + dc
        in if newRow \<ge> 0 \<and> newRow < 3 \<and> newCol \<ge> 0 \<and> newCol < 3 then [(newRow, newCol)] else []))
       directions)"

definition isNearRoad :: "Position \<Rightarrow> bool" where
  "isNearRoad pos \<longleftrightarrow> cellRow pos = 0 \<or> cellRow pos = 2 \<or> cellCol pos = 0 \<or> cellCol pos = 2"

definition hasCategory :: "BaseCategory \<Rightarrow> TileType option \<Rightarrow> bool" where
  "hasCategory category tile = (case tile of None \<Rightarrow> False | Some t \<Rightarrow> tileToCategory t = category)"

definition countInSuperblock :: "Grid \<Rightarrow> int \<Rightarrow> int \<Rightarrow> BaseCategory \<Rightarrow> nat" where
  "countInSuperblock g sbRow sbCol category =
     length (filter (\<lambda>p. hasCategory category (getCell g p)) (superblockPositions sbRow sbCol))"

definition countTileTypeInSuperblock :: "Grid \<Rightarrow> int \<Rightarrow> int \<Rightarrow> TileType \<Rightarrow> nat" where
  "countTileTypeInSuperblock g sbRow sbCol tileType =
     length (filter (\<lambda>p. getCell g p = Some tileType) (superblockPositions sbRow sbCol))"

definition countInAdjacentSuperblocks :: "Grid \<Rightarrow> int \<Rightarrow> int \<Rightarrow> BaseCategory \<Rightarrow> nat" where
  "countInAdjacentSuperblocks g sbRow sbCol category =
     sum_list (map (\<lambda>(r, c). countInSuperblock g r c category) (getAdjacentSuperblocks sbRow sbCol))"

definition countTileTypeInAdjacentSuperblocks :: "Grid \<Rightarrow> int \<Rightarrow> int \<Rightarrow> TileType \<Rightarrow> nat" where
  "countTileTypeInAdjacentSuperblocks g sbRow sbCol tileType =
     sum_list (map (\<lambda>(r, c). countTileTypeInSuperblock g r c tileType) (getAdjacentSuperblocks sbRow sbCol))"

definition residentialValue :: "TileType option \<Rightarrow> nat" where
  "residentialValue tile =
     (case tile of None \<Rightarrow> 0
      | Some t \<Rightarrow> if tileToCategory t = R
                  then (if t = tier2_residential \<or> t = highrise then 4 else 1)
                  else 0)"

definition countResidentialValueInAdjacentSuperblocks :: "Grid \<Rightarrow> int \<Rightarrow> int \<Rightarrow> nat" where
  "countResidentialValueInAdjacentSuperblocks g sbRow sbCol =
     sum_list (map (\<lambda>(r, c). sum_list (map (\<lambda>p. residentialValue (getCell g p)) (superblockPositions r c)))
       (getAdjacentSuperblocks sbRow sbCol))"

section \<open>The cluster finder (game/tiles.ts)\<close>

text \<open>
  \<^verbatim>\<open>findConnectedCommercialCluster\<close> runs a recursive closure \<^verbatim>\<open>dfs\<close> over the shared
  variables \<^verbatim>\<open>visited\<close>, \<^verbatim>\<open>clusterSize\<close> and \<^verbatim>\<open>touchesRoad\<close>. The calls still to be made
  are kept here as an explicit list: the head is the call being run, and the calls for the
  neighbours of a newly visited cell are put in front of the pending ones, which is the
  order in which the \<^verbatim>\<open>for\<close> loop of the closure makes them.
\<close>

lemma valid_pos_finite: "finite {p. valid_pos p}"
proof -
  have "{p. valid_pos p} \<subseteq>
    (\<lambda>(a, b, c, d). \<lparr>superblockRow = a, superblockCol = b, cellRow = c, cellCol = d\<rparr>) `
      ({0..2} \<times> {0..2} \<times> {0..2} \<times> {0..2})"
  proof
    fix p assume "p \<in> {p. valid_pos p}"
    then have v: "valid_pos p" by simp
    have "p = \<lparr>superblockRow = superblockRow p, superblockCol = superblockCol p,
               cellRow = cellRow p, cellCol = cellCol p\<rparr>" by simp
    moreover have "(superblockRow p, superblockCol p, cellRow p, cellCol p)
        \<in> {0..2} \<times> {0..2} \<times> {0..2} \<times> {0..2}"
      using v by (simp add: valid_pos_def)
    ultimately show "p \<in> (\<lambda>(a, b, c, d). \<lparr>superblockRow = a, superblockCol = b, cellRow = c, cellCol = d\<rparr>) `
      ({0..2} \<times> {0..2} \<times> {0..2} \<times> {0..2})"
      by (metis (mono_tags, lifting) image_eqI old.prod.case)
  qed
  then show ?thesis by (rule finite_subset) simp
qed

lemma hasCategory_valid: "hasCategory cat (getCell g p) \<Longrightarrow> valid_pos p"
  by (auto simp: hasCategory_def getCell_def split: if_splits)

function dfs :: "Grid \<Rightarrow> Position list \<Rightarrow> Position set \<times> nat \<times> bool \<Rightarrow> Position set \<times> nat \<times> bool" where
  "dfs g [] acc = acc"
| "dfs g (pos # pending) (visited, clusterSize, touchesRoad) =
     (if pos \<in> visited then dfs g pending (visited, clusterSize, touchesRoad)
      else if \<not> hasCategory C (getCell g pos) then dfs g pending (visited, clusterSize, touchesRoad)
      else dfs g (map fst (getAdjacentCells g pos) @ pending)
             (insert pos visited, clusterSize + 1, touchesRoad \<or> isNearRoad pos))"
  by pat_completeness auto
termination
proof (relation "measures [\<lambda>(g, pending, visited, n, t). card ({p. valid_pos p} - visited),
                           \<lambda>(g, pending, acc). length pending]", goal_cases)
  case 1
  show ?case by simp
next
  case (2 g pos pending visited clusterSize touchesRoad)
  then show ?case by simp
next
  case (3 g pos pending visited clusterSize touchesRoad)
  then show ?case by simp
next
  case (4 g pos pending visited clusterSize touchesRoad)
  then have "pos \<in> {p. valid_pos p} - visited"
    using hasCategory_valid by auto
  then have "card ({p. valid_pos p} - insert pos visited) < card ({p. valid_pos p} - visited)"
    using valid_pos_finite
    by (metis Diff_insert card_Diff1_less finite_Diff)
  then show ?case by simp
qed

definition findConnectedCommercialCluster :: "Position \<Rightarrow> Grid \<Rightarrow> nat \<times> bool" where
  "findConnectedCommercialCluster startPos g =
     (case dfs g [startPos] ({}, 0, False) of (visited, clusterSize, touchesRoad) \<Rightarrow>
        (clusterSize, touchesRoad))"

section \<open>The rule catalog (game/tiles.ts)\<close>

definition adjacentTiles :: "Grid \<Rightarrow> Position \<Rightarrow> TileType option list" where
  "adjacentTiles g pos = map snd (getAdjacentCells g pos)"

subsection \<open>Residential\<close>

definition residential_slums :: "Position \<Rightarrow> Grid \<Rightarrow> UpgradeResult" where
  "residential_slums pos g =
     (if getCell g pos \<noteq> Some house then cannot_upgrade
      else (let rCount = countInSuperblock g (superblockRow pos) (superblockCol pos) R;
                lCount = countInSuperblock g (superblockRow pos) (superblockCol pos) L;
                eCount = countInSuperblock g (superblockRow pos) (superblockCol pos) E
            in can_upgrade [rCount \<ge> 4, lCount = 0 \<and> eCount = 0]))"

definition residential_hotel :: "Position \<Rightarrow> Grid \<Rightarrow> UpgradeResult" where
  "residential_hotel pos g =
     (if getCell g pos \<noteq> Some house then cannot_upgrade
      else (let cCount = countInSuperblock g (superblockRow pos) (superblockCol pos) C;
                rCount = countInSuperblock g (superblockRow pos) (superblockCol pos) R
            in can_upgrade [cCount \<ge> 3, rCount < 3]))"

definition residential_villa :: "Position \<Rightarrow> Grid \<Rightarrow> UpgradeResult" where
  "residential_villa pos g =
     (if getCell g pos \<noteq> Some house then cannot_upgrade
      else (let hasAdjacentLeisure = list_ex (hasCategory L) (adjacentTiles g pos);
                nearRoad = isNearRoad pos
            in can_upgrade [hasAdjacentLeisure, \<not> nearRoad]))"

definition residential_tier2_residential :: "Position \<Rightarrow> Grid \<Rightarrow> UpgradeResult" where
  "residential_tier2_residential pos g =
     (if getCell g pos \<noteq> Some house \<and> getCell g pos \<noteq> Some slums then cannot_upgrade
      else (let rCount = countInSuperblock g (superblockRow pos) (superblockCol pos) R;
                lCount = countInSuperblock g (superblockRow pos) (superblockCol pos) L;
                cCount = countInSuperblock g (superblockRow pos) (superblockCol pos) C;
                eCount = countInSuperblock g (superblockRow pos) (superblockCol pos) E
            in can_upgrade [rCount \<ge> 3, lCount \<ge> 1, cCount \<ge> 1, eCount \<ge> 1]))"

definition residential_highrise :: "Position \<Rightarrow> Grid \<Rightarrow> UpgradeResult" where
  "residential_highrise pos g =
     (if getCell g pos \<noteq> Some tier2_residential then cannot_upgrade
      else (let hasShoppingCenter =
                  countTileTypeInAdjacentSuperblocks g (superblockRow pos) (superblockCol pos) shopping_center > 0;
                residentialValue =
                  countResidentialValueInAdjacentSuperblocks g (superblockRow pos) (superblockCol pos);
                eCount = countInSuperblock g (superblockRow pos) (superblockCol pos) E;
                lCount = countInSuperblock g (superblockRow pos) (superblockCol pos) L
            in can_upgrade [hasShoppingCenter, residentialValue \<ge> 20, eCount \<ge> 1, lCount \<ge> 3]))"

definition residentialUpgrades :: "Position \<Rightarrow> Grid \<Rightarrow> (TileType \<times> UpgradeResult) list" where
  "residentialUpgrades pos g =
     [(slums, residential_slums pos g),
      (hotel, residential_hotel pos g),
      (villa, residential_villa pos g),
      (tier2_residential, residential_tier2_residential pos g),
      (highrise, residential_highrise pos g)]"

subsection \<open>Leisure\<close>

definition leisure_sports :: "Position \<Rightarrow> Grid \<Rightarrow> UpgradeResult" where
  "leisure_sports pos g =
     (if getCell g pos \<noteq> Some yard \<and> getCell g pos \<noteq> Some playground then cannot_upgrade
      else (let adjacentLeisureCount = length (filter (hasCategory L) (adjacentTiles g pos))
            in can_upgrade [adjacentLeisureCount \<ge> 2]))"

definition leisure_playground :: "Position \<Rightarrow> Grid \<Rightarrow> UpgradeResult" where
  "leisure_playground pos g =
     (if getCell g pos \<noteq> Some yard then cannot_upgrade
      else (let hasAdjacentEducation = list_ex (hasCategory E) (adjacentTiles g pos)
            in can_upgrade [hasAdjacentEducation]))"

definition squareOffsets :: "(int \<times> int) list list" where
  "squareOffsets =
     [[(0, 0), (0, 1), (1, 0), (1, 1)],
      [(0, - 1), (0, 0), (1, - 1), (1, 0)],
      [(- 1, 0), (- 1, 1), (0, 0), (0, 1)],
      [(- 1, - 1), (- 1, 0), (0, - 1), (0, 0)]]"

text \<open>
  A square counts when each of its four cells lies inside the superblock and holds a
  leisure tile; the two early exits of the inner loop only cut the scan short.
\<close>

definition checkLeisureSquare :: "Position \<Rightarrow> Grid \<Rightarrow> bool" where
  "checkLeisureSquare pos g =
     list_ex (\<lambda>square.
       list_all (\<lambda>(dr, dc).
         (let newRow = cellRow pos + dr; newCol = cellCol pos + dc
          in \<not> (newRow < 0 \<or> newRow > 2 \<or> newCol < 0 \<or> newCol > 2) \<and>
             hasCategory L (getCell g \<lparr>superblockRow = superblockRow pos, superblockCol = superblockCol pos,
                                        cellRow = newRow, cellCol = newCol\<rparr>))) square) squareOffsets"

definition leisure_plaza :: "Position \<Rightarrow> Grid \<Rightarrow> UpgradeResult" where
  "leisure_plaza pos g =
     (if getCell g pos \<noteq> Some yard \<and> getCell g pos \<noteq> Some sports \<and> getCell g pos \<noteq> Some playground
      then cannot_upgrade
      else (let isPartOfSquare = checkLeisureSquare pos g
            in can_upgrade [isPartOfSquare]))"

definition leisure_park :: "Position \<Rightarrow> Grid \<Rightarrow> UpgradeResult" where
  "leisure_park pos g =
     (if \<not> hasCategory L (getCell g pos) \<or> getCell g pos = Some cinema then cannot_upgrade
      else (let lCount = countInSuperblock g (superblockRow pos) (superblockCol pos) L
            in can_upgrade [lCount \<ge> 7]))"

definition leisure_cinema :: "Position \<Rightarrow> Grid \<Rightarrow> UpgradeResult" where
  "leisure_cinema pos g =
     (if getCell g pos \<noteq> Some yard \<and> getCell g pos \<noteq> Some sports \<and> getCell g pos \<noteq> Some playground
         \<and> getCell g pos \<noteq> Some plaza
      then cannot_upgrade
      else (let hasAdjacentShoppingCenter = list_ex (\<lambda>t. t = Some shopping_center) (adjacentTiles g pos)
            in can_upgrade [hasAdjacentShoppingCenter]))"

definition leisureUpgrades :: "Position \<Rightarrow> Grid \<Rightarrow> (TileType \<times> UpgradeResult) list" where
  "leisureUpgrades pos g =
     [(sports, leisure_sports pos g),
      (playground, leisure_playground pos g),
      (plaza, leisure_plaza pos g),
      (park, leisure_park pos g),
      (cinema, leisure_cinema pos g)]"

subsection \<open>Commercial\<close>

definition commercial_shopping_center :: "Position \<Rightarrow> Grid \<Rightarrow> UpgradeResult" where
  "commercial_shopping_center pos g =
     (if getCell g pos \<noteq> Some shop then cannot_upgrade
      else (let hasAdjacentShoppingCenter = list_ex (\<lambda>t. t = Some shopping_center) (adjacentTiles g pos);
                cluster = findConnectedCommercialCluster pos g;
                clusterValid = (fst cluster \<ge> 3 \<and> snd cluster)
            in can_upgrade [hasAdjacentShoppingCenter \<or> clusterValid]))"

definition commercial_restaurant :: "Position \<Rightarrow> Grid \<Rightarrow> UpgradeResult" where
  "commercial_restaurant pos g =
     (if getCell g pos \<noteq> Some shop then cannot_upgrade
      else (let hasAdjacentCommercial = list_ex (hasCategory C) (adjacentTiles g pos);
                blockResidential = countInSuperblock g (superblockRow pos) (superblockCol pos) R;
                adjacentBlocksResidential =
                  countInAdjacentSuperblocks g (superblockRow pos) (superblockCol pos) R;
                totalResidential = blockResidential + adjacentBlocksResidential
            in can_upgrade [hasAdjacentCommercial, totalResidential \<ge> 10]))"

definition commercial_bank :: "Position \<Rightarrow> Grid \<Rightarrow> UpgradeResult" where
  "commercial_bank pos g =
     (if getCell g pos \<noteq> Some shop then cannot_upgrade
      else (let tier2Count =
                  countTileTypeInAdjacentSuperblocks g (superblockRow pos) (superblockCol pos) tier2_residential
            in can_upgrade [tier2Count \<ge> 4]))"

definition commercialUpgrades :: "Position \<Rightarrow> Grid \<Rightarrow> (TileType \<times> UpgradeResult) list" where
  "commercialUpgrades pos g =
     [(shopping_center, commercial_shopping_center pos g),
      (restaurant, commercial_restaurant pos g),
      (bank, commercial_bank pos g)]"

subsection \<open>Education\<close>

definition education_highschool :: "Position \<Rightarrow> Grid \<Rightarrow> UpgradeResult" where
  "education_highschool pos g =
     (if getCell g pos \<noteq> Some school then cannot_upgrade
      else (let residentialInAdjBlocks =
                  countInAdjacentSuperblocks g (superblockRow pos) (superblockCol pos) R;
                schoolsInAdjBlocks =
                  countTileTypeInAdjacentSuperblocks g (superblockRow pos) (superblockCol pos) school
                  + countTileTypeInAdjacentSuperblocks g (superblockRow pos) (superblockCol pos) highschool
                  + countTileTypeInAdjacentSuperblocks g (superblockRow pos) (superblockCol pos) university
            in can_upgrade [residentialInAdjBlocks \<ge> 20, schoolsInAdjBlocks \<ge> 1]))"

definition education_university :: "Position \<Rightarrow> Grid \<Rightarrow> UpgradeResult" where
  "education_university pos g =
     (if getCell g pos \<noteq> Some school \<and> getCell g pos \<noteq> Some highschool then cannot_upgrade
      else (let eCount = countInSuperblock g (superblockRow pos) (superblockCol pos) E
            in can_upgrade [eCount \<ge> 4]))"

definition educationUpgrades :: "Position \<Rightarrow> Grid \<Rightarrow> (TileType \<times> UpgradeResult) list" where
  "educationUpgrades pos g =
     [(highschool, education_highschool pos g),
      (university, education_university pos g)]"

subsection \<open>The slums downgrade and the candidate map\<close>

definition slumsDowngrade_house :: "Position \<Rightarrow> Grid \<Rightarrow> UpgradeResult" where
  "slumsDowngrade_house pos g =
     (if getCell g pos \<noteq> Some slums then cannot_upgrade
      else (let lCount = countInSuperblock g (superblockRow pos) (superblockCol pos) L;
                eCount = countInSuperblock g (superblockRow pos) (superblockCol pos) E;
                hasLeisureOrEducation = (lCount > 0 \<or> eCount > 0)
            in can_upgrade [hasLeisureOrEducation]))"

definition slumsDowngrade :: "Position \<Rightarrow> Grid \<Rightarrow> (TileType \<times> UpgradeResult) list" where
  "slumsDowngrade pos g = [(house, slumsDowngrade_house pos g)]"

text \<open>
  The result of \<^verbatim>\<open>getUpgradesForTile\<close> is an object keyed by the names of the checks,
  which are tile-kind names; it is kept as the list of its entries in insertion order and
  read with \<open>map_of\<close>. No name occurs twice, so appending the downgrade entry is the
  assignment \<^verbatim>\<open>results[name] = ...\<close>.
\<close>

definition getUpgradesForTile :: "TileType \<Rightarrow> Position \<Rightarrow> Grid \<Rightarrow> (TileType \<times> UpgradeResult) list" where
  "getUpgradesForTile tile pos g =
     (let checker = (case tileToCategory tile of
                       R \<Rightarrow> residentialUpgrades
                     | L \<Rightarrow> leisureUpgrades
                     | C \<Rightarrow> commercialUpgrades
                     | E \<Rightarrow> educationUpgrades);
          results = checker pos g
      in if tile = slums then results @ slumsDowngrade pos g else results)"

definition upgradePriority :: "TileType list" where
  "upgradePriority =
     [highrise, park, bank, university,
      tier2_residential, shopping_center, restaurant, plaza, cinema, highschool,
      villa, hotel, sports, playground,
      house,
      slums]"

section \<open>The priority resolver and the rebuild phase (game/gameStore.ts)\<close>

definition allMet :: "UpgradeResult option \<Rightarrow> bool" where
  "allMet result =
     (case result of
        None \<Rightarrow> False
      | Some cannot_upgrade \<Rightarrow> False
      | Some (can_upgrade conditions) \<Rightarrow> list_all (\<lambda>met. met) conditions)"

text \<open>
  The \<^verbatim>\<open>for (const upgradeTile of upgradePriority)\<close> loop of \<^verbatim>\<open>runRebuildPhase\<close>: the
  current kind is skipped, and the first other kind whose entry in \<open>upgrades\<close> has every
  condition met is taken.
\<close>

fun appliedUpgrade :: "TileType \<Rightarrow> (TileType \<Rightarrow> UpgradeResult option) \<Rightarrow> TileType list \<Rightarrow> TileType option" where
  "appliedUpgrade currentTile upgrades [] = None"
| "appliedUpgrade currentTile upgrades (upgradeTile # rest) =
     (if upgradeTile = currentTile then appliedUpgrade currentTile upgrades rest
      else if allMet (upgrades upgradeTile) then Some upgradeTile
      else appliedUpgrade currentTile upgrades rest)"

text \<open>The candidate map of the tile at a position, resolved: the change the engine would make.\<close>

definition resolve :: "Grid \<Rightarrow> Position \<Rightarrow> TileType option" where
  "resolve g pos =
     (case getCell g pos of
        None \<Rightarrow> None
      | Some currentTile \<Rightarrow>
          appliedUpgrade currentTile (map_of (getUpgradesForTile currentTile pos g)) upgradePriority)"

definition points :: "TileType \<Rightarrow> int" where
  "points upgrade = (case upgradeScores upgrade of None \<Rightarrow> 0 | Some v \<Rightarrow> v)"

datatype error = MaxUpgradesReached

text \<open>
  The local state of one rebuild phase: the two store fields it writes, the FIFO queue,
  the visited set (the keys of \<^verbatim>\<open>posKey\<close> name positions one to one) and the counter.
\<close>

record Rebuild =
  rgrid :: Grid
  rscore :: int
  queue :: "Position list"
  visited :: "Position set"
  upgradeCount :: nat

definition requeue :: "Grid \<Rightarrow> Position \<Rightarrow> Position list" where
  "requeue g pos =
     map fst (getAdjacentCells g pos)
     @ superblockPositions (superblockRow pos) (superblockCol pos)
     @ concat (map (\<lambda>(sbRow, sbCol). superblockPositions sbRow sbCol)
         (getAdjacentSuperblocks (superblockRow pos) (superblockCol pos)))
     @ [pos]"

text \<open>One pass through the body of the \<^verbatim>\<open>while\<close> loop, after the limit check.\<close>

definition rebuild_step :: "Rebuild \<Rightarrow> Rebuild" where
  "rebuild_step st =
     (case queue st of
        [] \<Rightarrow> st
      | pos # rest \<Rightarrow>
          if pos \<in> visited st then st\<lparr>queue := rest\<rparr>
          else (case getCell (rgrid st) pos of
                  None \<Rightarrow> st\<lparr>queue := rest, visited := insert pos (visited st)\<rparr>
                | Some currentTile \<Rightarrow>
                    (case appliedUpgrade currentTile
                            (map_of (getUpgradesForTile currentTile pos (rgrid st))) upgradePriority of
                       Some upgrade \<Rightarrow>
                         (let g' = setCell (rgrid st) pos (Some upgrade)
                          in \<lparr>rgrid = g',
                              rscore = rscore st + points upgrade,
                              queue = rest @ requeue g' pos,
                              visited = {},
                              upgradeCount = upgradeCount st + 1\<rparr>)
                     | None \<Rightarrow> st\<lparr>queue := rest, visited := insert pos (visited st)\<rparr>)))"

lemma rebuild_step_measure:
  assumes "queue st \<noteq> []"
  shows "upgradeCount (rebuild_step st) = upgradeCount st + 1
       \<or> (upgradeCount (rebuild_step st) = upgradeCount st
          \<and> length (queue (rebuild_step st)) < length (queue st))"
proof -
  from assms obtain pos rest where q: "queue st = pos # rest"
    by (cases "queue st") auto
  show ?thesis
    by (simp add: rebuild_step_def q Let_def split: option.split)
qed

function rebuild_loop :: "Rebuild \<Rightarrow> error + Rebuild" where
  "rebuild_loop st =
     (if queue st = [] then Inr st
      else if upgradeCount st \<ge> MAX_UPGRADES then Inl MaxUpgradesReached
      else rebuild_loop (rebuild_step st))"
  by pat_completeness auto
termination
proof (relation "measures [\<lambda>st. MAX_UPGRADES - upgradeCount st, \<lambda>st. length (queue st)]", goal_cases)
  case 1
  show ?case by simp
next
  case (2 st)
  then show ?case
    using rebuild_step_measure [of st] by auto
qed

declare rebuild_loop.simps [simp del]

definition runRebuildPhase :: "GameStore \<Rightarrow> Position \<Rightarrow> error + GameStore" where
  "runRebuildPhase s startPos =
     (case rebuild_loop
             \<lparr>rgrid = grid s, rscore = score s,
              queue = superblockPositions (superblockRow startPos) (superblockCol startPos),
              visited = {}, upgradeCount = 0\<rparr> of
        Inl e \<Rightarrow> Inl e
      | Inr st \<Rightarrow> Inr (s\<lparr>grid := rgrid st, score := rscore st\<rparr>))"

section \<open>Placement, deck and terminal state (game/gameStore.ts)\<close>

text \<open>
  \<^verbatim>\<open>generateRandomCategory\<close> draws from \<^verbatim>\<open>Math.random\<close>; the draws of one call of
  \<^verbatim>\<open>fillDeck\<close> are given as a function \<open>rnd\<close> from the number of the draw to its result.
\<close>

function fillDeck_loop :: "(nat \<Rightarrow> BaseCategory) \<Rightarrow> nat \<Rightarrow> BaseCategory list \<Rightarrow> BaseCategory list" where
  "fillDeck_loop rnd k d =
     (if length d < DECK_SIZE then fillDeck_loop rnd (Suc k) (d @ [rnd k]) else d)"
  by pat_completeness auto
termination
  by (relation "measure (\<lambda>(rnd, k, d). DECK_SIZE - length d)") auto

declare fillDeck_loop.simps [simp del]

definition fillDeck :: "(nat \<Rightarrow> BaseCategory) \<Rightarrow> BaseCategory list \<Rightarrow> BaseCategory list" where
  "fillDeck rnd d = fillDeck_loop rnd 0 d"

definition init :: "(nat \<Rightarrow> BaseCategory) \<Rightarrow> GameStore \<Rightarrow> GameStore" where
  "init rnd s =
     s\<lparr>grid := map (map (map (\<lambda>_. None))) (grid s),
       score := 0, turn := 0, deck := fillDeck rnd []\<rparr>"

definition createGameStore :: "(nat \<Rightarrow> BaseCategory) \<Rightarrow> GameStore" where
  "createGameStore rnd =
     init rnd \<lparr>grid = replicate 3 (replicate 3 (replicate 9 None)),
               deck = [], score = 0, turn = 0, hoveredCell = None\<rparr>"

text \<open>
  \<open>placeTile\<close> returns the boolean of the source together with the store it leaves; the
  error thrown by the rebuild phase passes through it. The half-updated store that such
  an error leaves behind is not part of the result.
\<close>

definition placeTile :: "(nat \<Rightarrow> BaseCategory) \<Rightarrow> GameStore \<Rightarrow> Position \<Rightarrow> error + (bool \<times> GameStore)" where
  "placeTile rnd s pos =
     (if getCell (grid s) pos \<noteq> None then Inr (False, s)
      else (case deck s of
              [] \<Rightarrow> Inr (False, s)
            | category # rest \<Rightarrow>
                (let tile = categoryToDefaultTile category;
                     s1 = s\<lparr>deck := rest, grid := setCell (grid s) pos (Some tile), turn := turn s + 1\<rparr>
                 in (case runRebuildPhase s1 pos of
                       Inl e \<Rightarrow> Inl e
                     | Inr s2 \<Rightarrow> Inr (True, s2\<lparr>deck := fillDeck rnd (deck s2)\<rparr>)))))"

definition cellsFilled :: "GameStore \<Rightarrow> nat" where
  "cellsFilled s =
     length (filter (\<lambda>(sbr, sbc, i). grid s ! sbr ! sbc ! i \<noteq> None)
       (concat (map (\<lambda>sbr. concat (map (\<lambda>sbc. map (\<lambda>i. (sbr, sbc, i)) [0..<9]) [0..<3])) [0..<3])))"

definition isGameOver :: "GameStore \<Rightarrow> bool" where
  "isGameOver s \<longleftrightarrow> cellsFilled s \<ge> TOTAL_CELLS"

text \<open>
  The stores a session can be in: a fresh store, and any store left by a call of
  \<open>init\<close> or a returning call of \<open>placeTile\<close> on one of them.
\<close>

inductive reachable :: "GameStore \<Rightarrow> bool" where
  reachable_create: "reachable (createGameStore rnd)"
| reachable_init: "reachable s \<Longrightarrow> reachable (init rnd s)"
| reachable_place: "reachable s \<Longrightarrow> valid_pos pos \<Longrightarrow> placeTile rnd s pos = Inr (b, s') \<Longrightarrow> reachable s'"

section \<open>Example boards and auxiliary notions\<close>

text \<open>The helper \<^verbatim>\<open>pos\<close> of the test suite, and boards for the examples below.\<close>

definition mkPos :: "int \<Rightarrow> int \<Rightarrow> int \<Rightarrow> int \<Rightarrow> Position" where
  "mkPos sbRow sbCol r c = \<lparr>superblockRow = sbRow, superblockCol = sbCol, cellRow = r, cellCol = c\<rparr>"

definition emptyBlock :: "TileType option list" where
  "emptyBlock = [None, None, None, None, None, None, None, None, None]"

definition emptyRow :: "TileType option list list" where
  "emptyRow = [emptyBlock, emptyBlock, emptyBlock]"

definition fullGrid :: Grid where
  "fullGrid = replicate 3 (replicate 3 (replicate 9 (Some house)))"

definition fullStore :: GameStore where
  "fullStore = \<lparr>grid = fullGrid, deck = [R, L, C, E, R], score = 0, turn = 81, hoveredCell = None\<rparr>"

definition sportsBoard :: Grid where
  "sportsBoard =
     [[[Some yard, Some yard, Some school, None, Some yard, None, None, None, None],
       emptyBlock,
       emptyBlock],
      emptyRow,
      emptyRow]"

definition plazaBoard :: Grid where
  "plazaBoard =
     [[[Some yard, Some yard, Some school, Some yard, Some yard, None, None, None, None],
       emptyBlock,
       emptyBlock],
      emptyRow,
      emptyRow]"

definition hotelBoard :: Grid where
  "hotelBoard =
     [[[Some shop, None, Some shop, None, Some house, None, None, Some shop, None],
       emptyBlock,
       emptyBlock],
      emptyRow,
      emptyRow]"

definition hotel3Board :: Grid where
  "hotel3Board =
     [[[Some shop, None, Some shop, Some house, Some house, Some house, None, Some shop, None],
       emptyBlock,
       emptyBlock],
      emptyRow,
      emptyRow]"

definition slumsBoard :: Grid where
  "slumsBoard =
     [[[Some house, Some house, Some house, Some house, None, None, None, None, None],
       emptyBlock,
       emptyBlock],
      emptyRow,
      emptyRow]"

definition shopRowBoard :: Grid where
  "shopRowBoard =
     [[[Some shop, Some shop, Some shop, None, None, None, None, None, None],
       emptyBlock,
       emptyBlock],
      emptyRow,
      emptyRow]"

definition shopPairBoard :: Grid where
  "shopPairBoard =
     [[[Some shop, Some shop, None, None, None, None, None, None, None],
       emptyBlock,
       emptyBlock],
      emptyRow,
      emptyRow]"

definition mallBoard :: Grid where
  "mallBoard =
     [[[Some shopping_center, Some shop, None, None, None, None, None, None, None],
       emptyBlock,
       emptyBlock],
      emptyRow,
      emptyRow]"

definition bankBoard :: Grid where
  "bankBoard =
     [[[Some shop, Some shop, Some shop, None, None, None, None, None, None],
       [Some tier2_residential, Some tier2_residential, Some tier2_residential, Some tier2_residential, None, None, None, None, None],
       emptyBlock],
      emptyRow,
      emptyRow]"

definition slumsRebuild :: Rebuild where
  "slumsRebuild = \<lparr>rgrid = slumsBoard, rscore = 0, queue = [mkPos 0 0 0 0], visited = {}, upgradeCount = 0\<rparr>"

text \<open>The state in which \<open>runRebuildPhase\<close> enters its loop after a tile has been written.\<close>

definition rebuild_start :: "GameStore \<Rightarrow> Position \<Rightarrow> TileType \<Rightarrow> Rebuild" where
  "rebuild_start s pos tile =
     \<lparr>rgrid = setCell (grid s) pos (Some tile), rscore = score s,
      queue = superblockPositions (superblockRow pos) (superblockCol pos),
      visited = {}, upgradeCount = 0\<rparr>"

text \<open>
  Thirteen placements from a fresh store, none of which changes a tile: two adjacent
  shops and three houses in superblock (0,0), three houses in superblock (1,0), and a
  yard and four houses in superblock (0,1). \<open>pend_store\<close>\<open>k\<close> is the store after the first
  \<open>k\<close> of them.
\<close>

definition pend_board0 :: Grid where
  "pend_board0 =
     [emptyRow,
      emptyRow,
      emptyRow]"

definition pend_board1 :: Grid where
  "pend_board1 =
     [[[Some shop, None, None, None, None, None, None, None, None],
       emptyBlock,
       emptyBlock],
      emptyRow,
      emptyRow]"

definition pend_board2 :: Grid where
  "pend_board2 =
     [[[Some shop, Some shop, None, None, None, None, None, None, None],
       emptyBlock,
       emptyBlock],
      emptyRow,
      emptyRow]"

definition pend_board3 :: Grid where
  "pend_board3 =
     [[[Some shop, Some shop, None, None, None, None, Some house, None, None],
       emptyBlock,
       emptyBlock],
      emptyRow,
      emptyRow]"

definition pend_board4 :: Grid where
  "pend_board4 =
     [[[Some shop, Some shop, None, None, None, None, Some house, Some house, None],
       emptyBlock,
       emptyBlock],
      emptyRow,
      emptyRow]"

definition pend_board5 :: Grid where
  "pend_board5 =
     [[[Some shop, Some shop, None, None, None, None, Some house, Some house, Some house],
       emptyBlock,
       emptyBlock],
      emptyRow,
      emptyRow]"

definition pend_board6 :: Grid where
  "pend_board6 =
     [[[Some shop, Some shop, None, None, None, None, Some house, Some house, Some house],
       emptyBlock,
       emptyBlock],
      [[Some house, None, None, None, None, None, None, None, None],
       emptyBlock,
       emptyBlock],
      emptyRow]"

definition pend_board7 :: Grid where
  "pend_board7 =
     [[[Some shop, Some shop, None, None, None, None, Some house, Some house, Some house],
       emptyBlock,
       emptyBlock],
      [[Some house, Some house, None, None, None, None, None, None, None],
       emptyBlock,
       emptyBlock],
      emptyRow]"

definition pend_board8 :: Grid where
  "pend_board8 =
     [[[Some shop, Some shop, None, None, None, None, Some house, Some house, Some house],
       emptyBlock,
       emptyBlock],
      [[Some house, Some house, Some house, None, None, None, None, None, None],
       emptyBlock,
       emptyBlock],
      emptyRow]"

definition pend_board9 :: Grid where
  "pend_board9 =
     [[[Some shop, Some shop, None, None, None, None, Some house, Some house, Some house],
       [Some yard, None, None, None, None, None, None, None, None],
       emptyBlock],
      [[Some house, Some house, Some house, None, None, None, None, None, None],
       emptyBlock,
       emptyBlock],
      emptyRow]"

definition pend_board10 :: Grid where
  "pend_board10 =
     [[[Some shop, Some shop, None, None, None, None, Some house, Some house, Some house],
       [Some yard, None, Some house, None, None, None, None, None, None],
       emptyBlock],
      [[Some house, Some house, Some house, None, None, None, None, None, None],
       emptyBlock,
       emptyBlock],
      emptyRow]"

definition pend_board11 :: Grid where
  "pend_board11 =
     [[[Some shop, Some shop, None, None, None, None, Some house, Some house, Some house],
       [Some yard, None, Some house, None, None, None, Some house, None, None],
       emptyBlock],
      [[Some house, Some house, Some house, None, None, None, None, None, None],
       emptyBlock,
       emptyBlock],
      emptyRow]"

definition pend_board12 :: Grid where
  "pend_board12 =
     [[[Some shop, Some shop, None, None, None, None, Some house, Some house, Some house],
       [Some yard, None, Some house, None, None, None, Some house, Some house, None],
       emptyBlock],
      [[Some house, Some house, Some house, None, None, None, None, None, None],
       emptyBlock,
       emptyBlock],
      emptyRow]"

definition pend_board13 :: Grid where
  "pend_board13 =
     [[[Some shop, Some shop, None, None, None, None, Some house, Some house, Some house],
       [Some yard, None, Some house, None, None, None, Some house, Some house, Some house],
       emptyBlock],
      [[Some house, Some house, Some house, None, None, None, None, None, None],
       emptyBlock,
       emptyBlock],
      emptyRow]"

definition pend_draws :: "BaseCategory list" where
  "pend_draws = [C, C, R, R, R, R, R, R, L, R, R, R, R, R, R, R, R, R]"

definition pend_store0 :: GameStore where
  "pend_store0 = \<lparr>grid = pend_board0, deck = take 5 (drop 0 pend_draws), score = 0, turn = 0, hoveredCell = None\<rparr>"

definition pend_store1 :: GameStore where
  "pend_store1 = \<lparr>grid = pend_board1, deck = take 5 (drop 1 pend_draws), score = 0, turn = 1, hoveredCell = None\<rparr>"

definition pend_store2 :: GameStore where
  "pend_store2 = \<lparr>grid = pend_board2, deck = take 5 (drop 2 pend_draws), score = 0, turn = 2, hoveredCell = None\<rparr>"

definition pend_store3 :: GameStore where
  "pend_store3 = \<lparr>grid = pend_board3, deck = take 5 (drop 3 pend_draws), score = 0, turn = 3, hoveredCell = None\<rparr>"

definition pend_store4 :: GameStore where
  "pend_store4 = \<lparr>grid = pend_board4, deck = take 5 (drop 4 pend_draws), score = 0, turn = 4, hoveredCell = None\<rparr>"

definition pend_store5 :: GameStore where
  "pend_store5 = \<lparr>grid = pend_board5, deck = take 5 (drop 5 pend_draws), score = 0, turn = 5, hoveredCell = None\<rparr>"

definition pend_store6 :: GameStore where
  "pend_store6 = \<lparr>grid = pend_board6, deck = take 5 (drop 6 pend_draws), score = 0, turn = 6, hoveredCell = None\<rparr>"

definition pend_store7 :: GameStore where
  "pend_store7 = \<lparr>grid = pend_board7, deck = take 5 (drop 7 pend_draws), score = 0, turn = 7, hoveredCell = None\<rparr>"

definition pend_store8 :: GameStore where
  "pend_store8 = \<lparr>grid = pend_board8, deck = take 5 (drop 8 pend_draws), score = 0, turn = 8, hoveredCell = None\<rparr>"

definition pend_store9 :: GameStore where
  "pend_store9 = \<lparr>grid = pend_board9, deck = take 5 (drop 9 pend_draws), score = 0, turn = 9, hoveredCell = None\<rparr>"

definition pend_store10 :: GameStore where
  "pend_store10 = \<lparr>grid = pend_board10, deck = take 5 (drop 10 pend_draws), score = 0, turn = 10, hoveredCell = None\<rparr>"

definition pend_store11 :: GameStore where
  "pend_store11 = \<lparr>grid = pend_board11, deck = take 5 (drop 11 pend_draws), score = 0, turn = 11, hoveredCell = None\<rparr>"

definition pend_store12 :: GameStore where
  "pend_store12 = \<lparr>grid = pend_board12, deck = take 5 (drop 12 pend_draws), score = 0, turn = 12, hoveredCell = None\<rparr>"

definition pend_store13 :: GameStore where
  "pend_store13 = \<lparr>grid = pend_board13, deck = take 5 (drop 13 pend_draws), score = 0, turn = 13, hoveredCell = None\<rparr>"

text \<open>One store comes from another by a returning call of \<open>placeTile\<close> on the board.\<close>

definition placement :: "GameStore \<Rightarrow> GameStore \<Rightarrow> bool" where
  "placement s s' \<longleftrightarrow> (\<exists>rnd pos b. valid_pos pos \<and> placeTile rnd s pos = Inr (b, s'))"

text \<open>The sum of a quantity of the tiles over the occupied cells of the board.\<close>

definition cellsum :: "(Position \<Rightarrow> TileType \<Rightarrow> 'a::comm_monoid_add) \<Rightarrow> Grid \<Rightarrow> 'a" where
  "cellsum h g = (\<Sum>q | valid_pos q. case getCell g q of None \<Rightarrow> 0 | Some t \<Rightarrow> h q t)"

text \<open>The positions \<open>getAdjacentCells\<close> lists; they do not depend on the grid.\<close>

definition neighbours :: "Position \<Rightarrow> Position list" where
  "neighbours pos = map fst (getAdjacentCells [] pos)"

definition emptyGrid :: Grid where
  "emptyGrid = replicate 3 (replicate 3 (replicate 9 None))"

text \<open>The helper of the test suite: write the listed tiles into the grid, in order.\<close>

definition prefill :: "Grid \<Rightarrow> (Position \<times> TileType) list \<Rightarrow> Grid" where
  "prefill g cells = foldl (\<lambda>g (p, tile). setCell g p (Some tile)) g cells"

text \<open>
  The round trip of the test suite (three houses, a fourth at cell (1,0), a yard at the
  centre), and a variant with the fourth house at the centre and the yard at cell (1,0).
\<close>

definition rt_start :: GameStore where
  "rt_start =
     \<lparr>grid = prefill emptyGrid [(mkPos 0 0 0 0, house), (mkPos 0 0 0 1, house), (mkPos 0 0 0 2, house)],
      deck = [R, L, R, L, C], score = 0, turn = 3, hoveredCell = None\<rparr>"

definition rt_slums :: GameStore where
  "rt_slums =
     \<lparr>grid = prefill emptyGrid [(mkPos 0 0 0 0, slums), (mkPos 0 0 0 1, slums), (mkPos 0 0 0 2, slums),
                                (mkPos 0 0 1 0, slums)],
      deck = [L, R, L, C, R], score = - 24, turn = 4, hoveredCell = None\<rparr>"

definition rt_reverted :: GameStore where
  "rt_reverted =
     \<lparr>grid = prefill emptyGrid [(mkPos 0 0 0 0, house), (mkPos 0 0 0 1, house), (mkPos 0 0 0 2, house),
                                (mkPos 0 0 1 0, house), (mkPos 0 0 1 1, yard)],
      deck = [R, L, C, R, R], score = - 24, turn = 5, hoveredCell = None\<rparr>"

definition rt_slums_centre :: GameStore where
  "rt_slums_centre =
     \<lparr>grid = prefill emptyGrid [(mkPos 0 0 0 0, slums), (mkPos 0 0 0 1, slums), (mkPos 0 0 0 2, slums),
                                (mkPos 0 0 1 1, slums)],
      deck = [L, R, L, C, R], score = - 24, turn = 4, hoveredCell = None\<rparr>"

definition rt_villa :: GameStore where
  "rt_villa =
     \<lparr>grid = prefill emptyGrid [(mkPos 0 0 0 0, house), (mkPos 0 0 0 1, house), (mkPos 0 0 0 2, house),
                                (mkPos 0 0 1 1, villa), (mkPos 0 0 1 0, yard)],
      deck = [R, L, C, R, R], score = - 6, turn = 5, hoveredCell = None\<rparr>"

definition revertBoard :: Grid where
  "revertBoard =
     [[[Some slums, Some slums, Some slums, Some slums, Some yard, None, None, None, None],
       emptyBlock,
       emptyBlock],
      emptyRow,
      emptyRow]"


text \<open>
  Boards for the Slums rule and its downgrade: four slums with a school, four slums alone,
  and three slums with a yard, a shop and a school.
\<close>

definition revertSchoolBoard :: Grid where
  "revertSchoolBoard =
     [[[Some slums, Some slums, Some slums, Some slums, Some school, None, None, None, None],
       emptyBlock,
       emptyBlock],
      emptyRow,
      emptyRow]"

definition slumsOnlyBoard :: Grid where
  "slumsOnlyBoard =
     [[[Some slums, Some slums, Some slums, Some slums, None, None, None, None, None],
       emptyBlock,
       emptyBlock],
      emptyRow,
      emptyRow]"

definition slumsTier2Board :: Grid where
  "slumsTier2Board =
     [[[Some slums, Some slums, Some slums, Some yard, Some shop, Some school, None, None, None],
       emptyBlock,
       emptyBlock],
      emptyRow,
      emptyRow]"

text \<open>
  A fourth house for superblock (1,0) of \<open>pend_store12\<close>, at cell (1,0): the board once the
  house is written (\<open>spill_board0\<close>), the board after the first house of the superblock has
  become slums (\<open>spill_board1\<close>), and the board on which the cascade settles
  (\<open>spill_board2\<close>). \<open>spill_cells\<close> lists the occupied cells, and \<open>spill_store\<close> is the store
  the placement leaves.
\<close>

definition spill_board0 :: Grid where
  "spill_board0 =
     [[[Some shop, Some shop, None, None, None, None, Some house, Some house, Some house],
       [Some yard, None, Some house, None, None, None, Some house, Some house, None],
       emptyBlock],
      [[Some house, Some house, Some house, Some house, None, None, None, None, None],
       emptyBlock,
       emptyBlock],
      emptyRow]"

definition spill_board1 :: Grid where
  "spill_board1 =
     [[[Some shop, Some shop, None, None, None, None, Some house, Some house, Some house],
       [Some yard, None, Some house, None, None, None, Some house, Some house, None],
       emptyBlock],
      [[Some slums, Some house, Some house, Some house, None, None, None, None, None],
       emptyBlock,
       emptyBlock],
      emptyRow]"

definition spill_board2 :: Grid where
  "spill_board2 =
     [[[Some restaurant, Some restaurant, None, None, None, None, Some house, Some house, Some house],
       [Some yard, None, Some house, None, None, None, Some house, Some house, None],
       emptyBlock],
      [[Some slums, Some slums, Some slums, Some slums, None, None, None, None, None],
       emptyBlock,
       emptyBlock],
      emptyRow]"

definition spill_cells :: "Position list" where
  "spill_cells =
     [mkPos 0 0 0 0, mkPos 0 0 0 1, mkPos 0 0 2 0, mkPos 0 0 2 1, mkPos 0 0 2 2,
      mkPos 0 1 0 0, mkPos 0 1 0 2, mkPos 0 1 2 0, mkPos 0 1 2 1,
      mkPos 1 0 0 0, mkPos 1 0 0 1, mkPos 1 0 0 2, mkPos 1 0 1 0]"

definition spill_store :: GameStore where
  "spill_store = \<lparr>grid = spill_board2, deck = take 5 (drop 13 pend_draws), score = 16, turn = 13, hoveredCell = None\<rparr>"

text \<open>
  Two kinds that no rule tells apart in a cell other than the one it examines: the rules
  read the other cells by category, except for the kinds that a count or an adjacency test
  names (tier-2 residential, highrise, shopping center and the three education kinds).
\<close>

definition alike :: "TileType \<Rightarrow> TileType \<Rightarrow> bool" where
  "alike t t' \<longleftrightarrow>
     t = t' \<or> (tileToCategory t = tileToCategory t'
               \<and> t \<notin> {tier2_residential, highrise, shopping_center, school, highschool, university}
               \<and> t' \<notin> {tier2_residential, highrise, shopping_center, school, highschool, university})"

section \<open>Basic facts about positions and the grid\<close>

lemma pos_eq_iff:
  fixes p q :: Position
  shows "(p = q) \<longleftrightarrow> superblockRow p = superblockRow q \<and> superblockCol p = superblockCol q
      \<and> cellRow p = cellRow q \<and> cellCol p = cellCol q"
  by (cases p, cases q) auto

lemma cellIndex_split:
  fixes a b :: int
  assumes "0 \<le> b" "b < 3"
  shows "(a * 3 + b) div 3 = a" "(a * 3 + b) mod 3 = b"
  using assms by simp_all

lemma cellIndex_inj:
  assumes "valid_pos p" "valid_pos q"
  shows "nat (cellRow p * 3 + cellCol p) = nat (cellRow q * 3 + cellCol q)
         \<longleftrightarrow> cellRow p = cellRow q \<and> cellCol p = cellCol q"
proof -
  have bp: "0 \<le> cellCol p" "cellCol p < 3" "0 \<le> cellRow p"
    and bq: "0 \<le> cellCol q" "cellCol q < 3" "0 \<le> cellRow q"
    using assms unfolding valid_pos_def by simp_all
  have nn: "0 \<le> cellRow p * 3 + cellCol p" "0 \<le> cellRow q * 3 + cellCol q"
    using bp bq by simp_all
  have "cellRow p = cellRow q \<and> cellCol p = cellCol q"
    if e: "cellRow p * 3 + cellCol p = cellRow q * 3 + cellCol q"
    using cellIndex_split [OF bp(1,2), of "cellRow p"] cellIndex_split [OF bq(1,2), of "cellRow q"] e
    by metis
  then show ?thesis using nn by (auto simp: eq_nat_nat_iff)
qed

lemma grid_wf_iff:
  "grid_wf g \<longleftrightarrow> length g = 3 \<and> (\<forall>r<3. length (g ! r) = 3 \<and> (\<forall>c<3. length (g ! r ! c) = 9))"
  unfolding grid_wf_def by (auto simp: all_set_conv_all_nth)

lemma grid_wf_nth:
  assumes "grid_wf g" "r < 3" "c < 3"
  shows "length (g ! r) = 3" "length (g ! r ! c) = 9"
  using assms unfolding grid_wf_iff by auto

lemma grid_wf_setCell:
  assumes wf: "grid_wf g"
  shows "grid_wf (setCell g p t)"
proof (cases "valid_pos p")
  case False
  then show ?thesis using wf by (simp add: setCell_def)
next
  case True
  have b: "nat (superblockRow p) < 3" "nat (superblockCol p) < 3"
    using True unfolding valid_pos_def by auto
  show ?thesis
    using wf b True unfolding grid_wf_iff setCell_def Let_def
    by (auto simp: nth_list_update)
qed

lemma nested_update_nth:
  assumes "r < length g" "c < length (g ! r)" "i < length (g ! r ! c)"
  shows "g[r := (g ! r)[c := (g ! r ! c)[i := t]]] ! r' ! c' ! i'
         = (if r = r' \<and> c = c' \<and> i = i' then t else g ! r' ! c' ! i')"
proof (cases "r = r'")
  case False
  then show ?thesis by simp
next
  case r: True
  show ?thesis
  proof (cases "c = c'")
    case False
    then show ?thesis using r assms(1) by simp
  next
    case True
    then show ?thesis using r assms by (cases "i = i'") simp_all
  qed
qed

lemma getCell_setCell:
  assumes "grid_wf g" "valid_pos p"
  shows "getCell (setCell g p t) q = (if q = p then t else getCell g q)"
proof (cases "valid_pos q")
  case False
  then show ?thesis using assms by (auto simp: getCell_def)
next
  case True
  have l: "length g = 3" using assms(1) by (simp add: grid_wf_def)
  have rp: "nat (superblockRow p) < 3" "nat (superblockCol p) < 3"
    and ip: "nat (cellRow p * 3 + cellCol p) < 9"
    using assms(2) unfolding valid_pos_def by auto
  have eqr: "nat (superblockRow p) = nat (superblockRow q) \<longleftrightarrow> superblockRow p = superblockRow q"
    and eqc: "nat (superblockCol p) = nat (superblockCol q) \<longleftrightarrow> superblockCol p = superblockCol q"
    using assms(2) True unfolding valid_pos_def by auto
  note len = grid_wf_nth [OF assms(1) rp]
  have "getCell (setCell g p t) q =
        (if nat (superblockRow p) = nat (superblockRow q) \<and> nat (superblockCol p) = nat (superblockCol q)
            \<and> nat (cellRow p * 3 + cellCol p) = nat (cellRow q * 3 + cellCol q)
         then t else getCell g q)"
    unfolding getCell_def setCell_def Let_def
    using True assms(2) nested_update_nth [of "nat (superblockRow p)" g "nat (superblockCol p)"
        "nat (cellRow p * 3 + cellCol p)" t] l rp ip len
    by simp
  also have "\<dots> = (if q = p then t else getCell g q)"
    unfolding eqr eqc cellIndex_inj [OF assms(2) True] pos_eq_iff [of q p] by auto
  finally show ?thesis .
qed

lemma getCell_Some_valid: "getCell g p = Some t \<Longrightarrow> valid_pos p"
  by (auto simp: getCell_def split: if_splits)

lemma appliedUpgrade_find:
  "appliedUpgrade cur ups prio = List.find (\<lambda>t. t \<noteq> cur \<and> allMet (ups t)) prio"
  by (induction prio) auto

lemma appliedUpgrade_Some:
  "appliedUpgrade cur ups prio = Some t \<Longrightarrow> t \<noteq> cur \<and> allMet (ups t) \<and> t \<in> set prio"
  by (induction prio) (auto split: if_splits)

lemma rebuild_loop_Nil: "queue st = [] \<Longrightarrow> rebuild_loop st = Inr st"
  by (simp add: rebuild_loop.simps)

lemma rebuild_loop_Cons:
  "queue st \<noteq> [] \<Longrightarrow> upgradeCount st < MAX_UPGRADES \<Longrightarrow> rebuild_loop st = rebuild_loop (rebuild_step st)"
  by (simp add: rebuild_loop.simps)

text \<open>The body of the loop in terms of the resolver.\<close>

lemma rebuild_step_resolve:
  "rebuild_step st =
     (case queue st of
        [] \<Rightarrow> st
      | pos # rest \<Rightarrow>
          if pos \<in> visited st then st\<lparr>queue := rest\<rparr>
          else (case resolve (rgrid st) pos of
                  None \<Rightarrow> st\<lparr>queue := rest, visited := insert pos (visited st)\<rparr>
                | Some upgrade \<Rightarrow>
                    \<lparr>rgrid = setCell (rgrid st) pos (Some upgrade),
                     rscore = rscore st + points upgrade,
                     queue = rest @ requeue (setCell (rgrid st) pos (Some upgrade)) pos,
                     visited = {},
                     upgradeCount = upgradeCount st + 1\<rparr>))"
  by (simp add: rebuild_step_def resolve_def Let_def split: list.split option.split)

lemmas accessor_defs =
  mkPos_def emptyBlock_def emptyRow_def getCell_def valid_pos_def countInSuperblock_def
  superblockPositions_def hasCategory_def adjacentTiles_def getAdjacentCells_def directions_def
  isNearRoad_def countTileTypeInSuperblock_def countInAdjacentSuperblocks_def
  countTileTypeInAdjacentSuperblocks_def countResidentialValueInAdjacentSuperblocks_def
  getAdjacentSuperblocks_def residentialValue_def

lemmas rule_defs =
  getUpgradesForTile_def residentialUpgrades_def leisureUpgrades_def commercialUpgrades_def
  educationUpgrades_def slumsDowngrade_def upgradePriority_def allMet_def
  residential_slums_def residential_hotel_def residential_villa_def
  residential_tier2_residential_def residential_highrise_def
  leisure_sports_def leisure_playground_def leisure_plaza_def leisure_park_def leisure_cinema_def
  checkLeisureSquare_def squareOffsets_def
  commercial_shopping_center_def commercial_restaurant_def commercial_bank_def
  education_highschool_def education_university_def slumsDowngrade_house_def
  findConnectedCommercialCluster_def

section \<open>Placement failure\<close>

text \<open>
  C7. A placement on an occupied cell, or with an empty deck, returns false and leaves the
  whole store (grid, score, turn counter, deck) as it was.
\<close>

theorem placeTile_rejected_unchanged:
  "getCell (grid s) pos \<noteq> None \<or> deck s = [] \<Longrightarrow> placeTile rnd s pos = Inr (False, s)"
  by (auto simp: placeTile_def)

theorem placeTile_rejected_unchanged_witness:
  "getCell (grid fullStore) (mkPos 0 0 0 0) \<noteq> None
   \<and> placeTile (\<lambda>k. R) fullStore (mkPos 0 0 0 0) = Inr (False, fullStore)"
proof -
  have h: "getCell (grid fullStore) (mkPos 0 0 0 0) \<noteq> None"
    by (simp add: fullStore_def fullGrid_def accessor_defs)
  then have "getCell (grid fullStore) (mkPos 0 0 0 0) \<noteq> None \<or> deck fullStore = []" by simp
  from placeTile_rejected_unchanged [OF this] h show ?thesis by simp
qed

section \<open>Terminal state\<close>

lemma cellsFilled_full:
  assumes "\<forall>p. valid_pos p \<longrightarrow> getCell (grid s) p \<noteq> None"
  shows "cellsFilled s = 81"
proof -
  have cell: "grid s ! sbr ! sbc ! i \<noteq> None" if "sbr < 3" "sbc < 3" "i < 9" for sbr sbc i
  proof -
    let ?p = "\<lparr>superblockRow = int sbr, superblockCol = int sbc,
               cellRow = int (i div 3), cellCol = int (i mod 3)\<rparr>"
    have v: "valid_pos ?p" using that by (simp add: valid_pos_def)
    have "nat (int (i div 3) * 3 + int (i mod 3)) = i"
      by (metis div_mult_mod_eq nat_int of_nat_add of_nat_mult of_nat_numeral)
    then have "getCell (grid s) ?p = grid s ! sbr ! sbc ! i"
      using v by (simp add: getCell_def)
    then show ?thesis using assms v by metis
  qed
  let ?idx = "concat (map (\<lambda>sbr. concat (map (\<lambda>sbc. map (\<lambda>i. (sbr, sbc, i)) [0..<9]) [0..<3])) [0..<3])"
  have all: "\<forall>x \<in> set ?idx. (\<lambda>(sbr, sbc, i). grid s ! sbr ! sbc ! i \<noteq> None) x"
    using cell by auto
  have "filter (\<lambda>(sbr, sbc, i). grid s ! sbr ! sbc ! i \<noteq> None) ?idx = ?idx"
    using all by (rule_tac filter_True) blast
  then have "cellsFilled s = length ?idx" by (simp add: cellsFilled_def)
  also have "\<dots> = 81" by (simp add: length_concat comp_def sum_list_triv)
  finally show ?thesis .
qed

text \<open>
  C8. When every one of the 81 cells holds a tile, of whatever kind, \<open>isGameOver\<close> is
  true and a placement at any cell returns false and leaves the store as it was.
\<close>

theorem full_board_terminal:
  assumes "\<forall>p. valid_pos p \<longrightarrow> getCell (grid s) p \<noteq> None"
  shows "isGameOver s \<and> (\<forall>pos. valid_pos pos \<longrightarrow> placeTile rnd s pos = Inr (False, s))"
  using assms cellsFilled_full [OF assms]
  by (simp add: isGameOver_def TOTAL_CELLS_def placeTile_def)

lemma fullGrid_occupied: "valid_pos p \<Longrightarrow> getCell fullGrid p = Some house"
  unfolding getCell_def valid_pos_def fullGrid_def
  by (simp add: nat_less_iff) 

theorem full_board_terminal_witness:
  "isGameOver fullStore \<and> placeTile (\<lambda>k. R) fullStore (mkPos 1 1 1 1) = Inr (False, fullStore)"
proof -
  have occ: "\<forall>p. valid_pos p \<longrightarrow> getCell (grid fullStore) p \<noteq> None"
    by (simp add: fullStore_def fullGrid_occupied)
  have v: "valid_pos (mkPos 1 1 1 1)" by (simp add: mkPos_def valid_pos_def)
  from full_board_terminal [OF occ, of "\<lambda>k. R"] v show ?thesis by blast
qed

section \<open>The priority resolver\<close>

lemma allMet_None [simp]: "allMet None = False"
  by (simp add: allMet_def)

lemma getUpgradesForTile_cases:
  "tileToCategory cur = L \<Longrightarrow> getUpgradesForTile cur pos g = leisureUpgrades pos g"
  "tileToCategory cur = C \<Longrightarrow> getUpgradesForTile cur pos g = commercialUpgrades pos g"
  "tileToCategory cur = E \<Longrightarrow> getUpgradesForTile cur pos g = educationUpgrades pos g"
  "tileToCategory cur = R \<Longrightarrow> getUpgradesForTile cur pos g =
     (if cur = slums then residentialUpgrades pos g @ slumsDowngrade pos g else residentialUpgrades pos g)"
  by (cases cur; simp add: getUpgradesForTile_def)+

lemma candidates_category:
  "map_of (getUpgradesForTile cur pos g) t = Some res \<Longrightarrow> tileToCategory t = tileToCategory cur"
  by (cases cur)
     (auto simp: getUpgradesForTile_def residentialUpgrades_def leisureUpgrades_def
        commercialUpgrades_def educationUpgrades_def slumsDowngrade_def split: if_splits)

lemma resolve_find:
  "getCell g pos = Some cur \<Longrightarrow>
   resolve g pos = List.find (\<lambda>t. t \<noteq> cur \<and> allMet (map_of (getUpgradesForTile cur pos g) t)) upgradePriority"
  by (simp add: resolve_def appliedUpgrade_find)

lemma resolve_yard:
  assumes "getCell g pos = Some yard"
  shows "resolve g pos =
    (if allMet (Some (leisure_park pos g)) then Some park
     else if allMet (Some (leisure_plaza pos g)) then Some plaza
     else if allMet (Some (leisure_cinema pos g)) then Some cinema
     else if allMet (Some (leisure_sports pos g)) then Some sports
     else if allMet (Some (leisure_playground pos g)) then Some playground
     else None)"
  using assms
  by (simp add: resolve_def getUpgradesForTile_def leisureUpgrades_def upgradePriority_def)

text \<open>
  C2 (amended). The resolver walks the fixed order
  highrise, park, bank, university, tier2, shopping center, restaurant, plaza, cinema,
  high school, villa, hotel, sports, playground, house (the downgrade), slums; it skips the
  current kind and takes the first other kind whose candidate has every condition true.
  A cell whose Sports and Playground candidates are both satisfied is never made a
  Playground: it becomes Sports unless the Park, Plaza or Cinema candidate, which stand
  before Sports in the order, is satisfied too, and then it becomes the first of those.
\<close>

theorem resolver_priority_order:
  "upgradePriority =
     [highrise, park, bank, university, tier2_residential, shopping_center, restaurant, plaza,
      cinema, highschool, villa, hotel, sports, playground, house, slums]
   \<and> (getCell g pos = Some cur \<longrightarrow>
        resolve g pos =
          List.find (\<lambda>t. t \<noteq> cur \<and> allMet (map_of (getUpgradesForTile cur pos g) t)) upgradePriority)
   \<and> (getCell g pos = Some cur
        \<and> allMet (map_of (getUpgradesForTile cur pos g) sports)
        \<and> allMet (map_of (getUpgradesForTile cur pos g) playground) \<longrightarrow>
        resolve g pos \<noteq> Some playground
        \<and> resolve g pos =
            (if allMet (map_of (getUpgradesForTile cur pos g) park) then Some park
             else if allMet (map_of (getUpgradesForTile cur pos g) plaza) then Some plaza
             else if allMet (map_of (getUpgradesForTile cur pos g) cinema) then Some cinema
             else Some sports))"
proof (intro conjI impI)
  show "upgradePriority =
     [highrise, park, bank, university, tier2_residential, shopping_center, restaurant, plaza,
      cinema, highschool, villa, hotel, sports, playground, house, slums]"
    by (simp add: upgradePriority_def)
next
  assume "getCell g pos = Some cur"
  then show "resolve g pos =
      List.find (\<lambda>t. t \<noteq> cur \<and> allMet (map_of (getUpgradesForTile cur pos g) t)) upgradePriority"
    by (rule resolve_find)
next
  assume a: "getCell g pos = Some cur
        \<and> allMet (map_of (getUpgradesForTile cur pos g) sports)
        \<and> allMet (map_of (getUpgradesForTile cur pos g) playground)"
  then have "map_of (getUpgradesForTile cur pos g) playground \<noteq> None"
    by (cases "map_of (getUpgradesForTile cur pos g) playground") simp_all
  then have cat: "tileToCategory cur = L"
    using candidates_category [of cur pos g playground] by auto
  have "allMet (Some (leisure_playground pos g))"
    using a cat by (simp add: getUpgradesForTile_cases leisureUpgrades_def)
  then have "getCell g pos = Some yard"
    by (auto simp: allMet_def leisure_playground_def split: if_splits)
  then have cur: "cur = yard" using a by simp
  have r: "resolve g pos =
    (if allMet (Some (leisure_park pos g)) then Some park
     else if allMet (Some (leisure_plaza pos g)) then Some plaza
     else if allMet (Some (leisure_cinema pos g)) then Some cinema
     else Some sports)"
    using a cur resolve_yard [of g pos]
    by (simp add: getUpgradesForTile_def leisureUpgrades_def)
  show "resolve g pos \<noteq> Some playground" using r by (simp split: if_splits)
  show "resolve g pos =
            (if allMet (map_of (getUpgradesForTile cur pos g) park) then Some park
             else if allMet (map_of (getUpgradesForTile cur pos g) plaza) then Some plaza
             else if allMet (map_of (getUpgradesForTile cur pos g) cinema) then Some cinema
             else Some sports)"
    using r cur by (simp add: getUpgradesForTile_def leisureUpgrades_def)
qed

theorem resolver_priority_order_witness:
  "getCell sportsBoard (mkPos 0 0 0 1) = Some yard
   \<and> allMet (map_of (getUpgradesForTile yard (mkPos 0 0 0 1) sportsBoard) sports)
   \<and> allMet (map_of (getUpgradesForTile yard (mkPos 0 0 0 1) sportsBoard) playground)
   \<and> resolve sportsBoard (mkPos 0 0 0 1) = Some sports"
proof -
  have h: "getCell sportsBoard (mkPos 0 0 0 1) = Some yard
        \<and> allMet (map_of (getUpgradesForTile yard (mkPos 0 0 0 1) sportsBoard) sports)
        \<and> allMet (map_of (getUpgradesForTile yard (mkPos 0 0 0 1) sportsBoard) playground)"
    by (simp add: sportsBoard_def rule_defs accessor_defs)
  have n: "\<not> allMet (map_of (getUpgradesForTile yard (mkPos 0 0 0 1) sportsBoard) park)"
    "\<not> allMet (map_of (getUpgradesForTile yard (mkPos 0 0 0 1) sportsBoard) plaza)"
    "\<not> allMet (map_of (getUpgradesForTile yard (mkPos 0 0 0 1) sportsBoard) cinema)"
    by (simp_all add: sportsBoard_def rule_defs accessor_defs)
  from resolver_priority_order [of sportsBoard "mkPos 0 0 0 1" yard] h
  have "resolve sportsBoard (mkPos 0 0 0 1) =
     (if allMet (map_of (getUpgradesForTile yard (mkPos 0 0 0 1) sportsBoard) park) then Some park
      else if allMet (map_of (getUpgradesForTile yard (mkPos 0 0 0 1) sportsBoard) plaza) then Some plaza
      else if allMet (map_of (getUpgradesForTile yard (mkPos 0 0 0 1) sportsBoard) cinema) then Some cinema
      else Some sports)"
    by blast
  with h n show ?thesis by simp
qed

theorem sports_not_always_chosen:
  "getCell plazaBoard (mkPos 0 0 0 1) = Some yard
   \<and> allMet (map_of (getUpgradesForTile yard (mkPos 0 0 0 1) plazaBoard) sports)
   \<and> allMet (map_of (getUpgradesForTile yard (mkPos 0 0 0 1) plazaBoard) playground)
   \<and> resolve plazaBoard (mkPos 0 0 0 1) = Some plaza"
  by (simp add: resolve_def plazaBoard_def rule_defs accessor_defs)

section \<open>The Hotel rule\<close>

lemma candidate_hotel:
  "map_of (getUpgradesForTile cur pos g) hotel =
     (if tileToCategory cur = R then Some (residential_hotel pos g) else None)"
  by (cases cur)
     (simp_all add: getUpgradesForTile_def residentialUpgrades_def leisureUpgrades_def
        commercialUpgrades_def educationUpgrades_def slumsDowngrade_def)

lemma hotel_met_iff:
  assumes "getCell g pos = Some cur"
  shows "allMet (map_of (getUpgradesForTile cur pos g) hotel) \<longleftrightarrow>
     cur = house \<and> 3 \<le> countInSuperblock g (superblockRow pos) (superblockCol pos) C
       \<and> countInSuperblock g (superblockRow pos) (superblockCol pos) R < 3"
  using assms by (auto simp: candidate_hotel allMet_def residential_hotel_def Let_def)

text \<open>
  C6. The Hotel candidate of an occupied cell is satisfied exactly when the tile is a
  house, the commercial count of its superblock is at least 3 and the residential count
  of its superblock is strictly below 3; with a residential count of exactly 3 the
  resolver never selects Hotel.
\<close>

theorem hotel_needs_fewer_than_three_residential:
  "(getCell g pos = Some cur \<longrightarrow>
      (allMet (map_of (getUpgradesForTile cur pos g) hotel) \<longleftrightarrow>
         cur = house \<and> 3 \<le> countInSuperblock g (superblockRow pos) (superblockCol pos) C
           \<and> countInSuperblock g (superblockRow pos) (superblockCol pos) R < 3))
   \<and> (countInSuperblock g (superblockRow pos) (superblockCol pos) R = 3 \<longrightarrow>
        resolve g pos \<noteq> Some hotel)"
proof (intro conjI impI)
  assume "getCell g pos = Some cur"
  then show "allMet (map_of (getUpgradesForTile cur pos g) hotel) \<longleftrightarrow>
         cur = house \<and> 3 \<le> countInSuperblock g (superblockRow pos) (superblockCol pos) C
           \<and> countInSuperblock g (superblockRow pos) (superblockCol pos) R < 3"
    by (rule hotel_met_iff)
next
  assume three: "countInSuperblock g (superblockRow pos) (superblockCol pos) R = 3"
  show "resolve g pos \<noteq> Some hotel"
  proof
    assume r: "resolve g pos = Some hotel"
    then obtain t where t: "getCell g pos = Some t"
      by (auto simp: resolve_def split: option.splits)
    with r have "allMet (map_of (getUpgradesForTile t pos g) hotel)"
      using appliedUpgrade_Some by (fastforce simp: resolve_def)
    with t three show False by (simp add: hotel_met_iff)
  qed
qed

theorem hotel_needs_fewer_than_three_residential_witness:
  "getCell hotelBoard (mkPos 0 0 1 1) = Some house
   \<and> allMet (map_of (getUpgradesForTile house (mkPos 0 0 1 1) hotelBoard) hotel)
   \<and> countInSuperblock hotelBoard 0 0 C = 3
   \<and> countInSuperblock hotelBoard 0 0 R = 1
   \<and> countInSuperblock hotel3Board 0 0 R = 3
   \<and> resolve hotel3Board (mkPos 0 0 1 1) \<noteq> Some hotel"
proof -
  have c: "getCell hotelBoard (mkPos 0 0 1 1) = Some house"
    "countInSuperblock hotelBoard 0 0 C = 3" "countInSuperblock hotelBoard 0 0 R = 1"
    by (simp_all add: hotelBoard_def accessor_defs)
  have three: "countInSuperblock hotel3Board (superblockRow (mkPos 0 0 1 1)) (superblockCol (mkPos 0 0 1 1)) R = 3"
    by (simp add: hotel3Board_def accessor_defs)
  have p: "superblockRow (mkPos 0 0 1 1) = 0" "superblockCol (mkPos 0 0 1 1) = 0"
    by (simp_all add: mkPos_def)
  from hotel_needs_fewer_than_three_residential [of hotelBoard "mkPos 0 0 1 1" house] c p
  have "allMet (map_of (getUpgradesForTile house (mkPos 0 0 1 1) hotelBoard) hotel)" by simp
  moreover from hotel_needs_fewer_than_three_residential [of hotel3Board "mkPos 0 0 1 1" house] three
  have "resolve hotel3Board (mkPos 0 0 1 1) \<noteq> Some hotel" by blast
  ultimately show ?thesis using c three p by simp
qed

section \<open>One step of the cascade\<close>

lemma resolve_Some_occupied: "resolve g pos = Some t \<Longrightarrow> \<exists>cur. getCell g pos = Some cur"
  by (auto simp: resolve_def split: option.splits)

text \<open>
  C3. When the engine pops a position that is not visited and the resolver selects a
  change for it, that step writes the new kind into the cell, adds the points of the new
  kind to the score, empties the visited set, counts one more upgrade, and appends to the
  rest of the queue, in this order: the orthogonal neighbours inside the superblock, the
  nine cells of the superblock, the nine cells of each orthogonally adjacent superblock,
  and the changed position itself.
\<close>

theorem cascade_change_step:
  assumes "queue st = pos # rest" "pos \<notin> visited st" "resolve (rgrid st) pos = Some upgrade"
  shows "rgrid (rebuild_step st) = setCell (rgrid st) pos (Some upgrade)
       \<and> (grid_wf (rgrid st) \<longrightarrow> getCell (rgrid (rebuild_step st)) pos = Some upgrade)
       \<and> rscore (rebuild_step st) = rscore st + points upgrade
       \<and> visited (rebuild_step st) = {}
       \<and> upgradeCount (rebuild_step st) = upgradeCount st + 1
       \<and> queue (rebuild_step st) =
           rest
           @ map fst (getAdjacentCells (rgrid (rebuild_step st)) pos)
           @ superblockPositions (superblockRow pos) (superblockCol pos)
           @ concat (map (\<lambda>(sbRow, sbCol). superblockPositions sbRow sbCol)
               (getAdjacentSuperblocks (superblockRow pos) (superblockCol pos)))
           @ [pos]"
proof -
  have v: "valid_pos pos"
    using assms(3) resolve_Some_occupied getCell_Some_valid by blast
  have step: "rebuild_step st =
      \<lparr>rgrid = setCell (rgrid st) pos (Some upgrade),
       rscore = rscore st + points upgrade,
       queue = rest @ requeue (setCell (rgrid st) pos (Some upgrade)) pos,
       visited = {},
       upgradeCount = upgradeCount st + 1\<rparr>"
    using assms by (simp add: rebuild_step_resolve)
  show ?thesis
    unfolding step using v by (simp add: requeue_def getCell_setCell)
qed

theorem cascade_change_step_witness:
  "resolve (rgrid slumsRebuild) (mkPos 0 0 0 0) = Some slums
   \<and> getCell (rgrid (rebuild_step slumsRebuild)) (mkPos 0 0 0 0) = Some slums
   \<and> rscore (rebuild_step slumsRebuild) = - 6
   \<and> visited (rebuild_step slumsRebuild) = {}
   \<and> upgradeCount (rebuild_step slumsRebuild) = 1
   \<and> queue (rebuild_step slumsRebuild) =
        [mkPos 0 0 1 0, mkPos 0 0 0 1,
         mkPos 0 0 0 0, mkPos 0 0 0 1, mkPos 0 0 0 2,
         mkPos 0 0 1 0, mkPos 0 0 1 1, mkPos 0 0 1 2,
         mkPos 0 0 2 0, mkPos 0 0 2 1, mkPos 0 0 2 2,
         mkPos 1 0 0 0, mkPos 1 0 0 1, mkPos 1 0 0 2,
         mkPos 1 0 1 0, mkPos 1 0 1 1, mkPos 1 0 1 2,
         mkPos 1 0 2 0, mkPos 1 0 2 1, mkPos 1 0 2 2,
         mkPos 0 1 0 0, mkPos 0 1 0 1, mkPos 0 1 0 2,
         mkPos 0 1 1 0, mkPos 0 1 1 1, mkPos 0 1 1 2,
         mkPos 0 1 2 0, mkPos 0 1 2 1, mkPos 0 1 2 2,
         mkPos 0 0 0 0]"
proof -
  have q: "queue slumsRebuild = mkPos 0 0 0 0 # []" "mkPos 0 0 0 0 \<notin> visited slumsRebuild"
    by (simp_all add: slumsRebuild_def)
  have r: "resolve (rgrid slumsRebuild) (mkPos 0 0 0 0) = Some slums"
    by (simp add: slumsRebuild_def slumsBoard_def resolve_def rule_defs accessor_defs)
  have wf: "grid_wf (rgrid slumsRebuild)"
    by (simp add: slumsRebuild_def slumsBoard_def grid_wf_def emptyRow_def emptyBlock_def)
  have s0: "rscore slumsRebuild = 0" "upgradeCount slumsRebuild = 0"
    by (simp_all add: slumsRebuild_def)
  have a: "map fst (getAdjacentCells g (mkPos 0 0 0 0)) = [mkPos 0 0 1 0, mkPos 0 0 0 1]" for g
    by (simp add: getAdjacentCells_def directions_def mkPos_def)
  have b: "superblockPositions (superblockRow (mkPos 0 0 0 0)) (superblockCol (mkPos 0 0 0 0))
           @ concat (map (\<lambda>(sbRow, sbCol). superblockPositions sbRow sbCol)
               (getAdjacentSuperblocks (superblockRow (mkPos 0 0 0 0)) (superblockCol (mkPos 0 0 0 0))))
         = [mkPos 0 0 0 0, mkPos 0 0 0 1, mkPos 0 0 0 2,
         mkPos 0 0 1 0, mkPos 0 0 1 1, mkPos 0 0 1 2,
         mkPos 0 0 2 0, mkPos 0 0 2 1, mkPos 0 0 2 2,
         mkPos 1 0 0 0, mkPos 1 0 0 1, mkPos 1 0 0 2,
         mkPos 1 0 1 0, mkPos 1 0 1 1, mkPos 1 0 1 2,
         mkPos 1 0 2 0, mkPos 1 0 2 1, mkPos 1 0 2 2,
         mkPos 0 1 0 0, mkPos 0 1 0 1, mkPos 0 1 0 2,
         mkPos 0 1 1 0, mkPos 0 1 1 1, mkPos 0 1 1 2,
         mkPos 0 1 2 0, mkPos 0 1 2 1, mkPos 0 1 2 2]"
    by (simp add: superblockPositions_def getAdjacentSuperblocks_def directions_def mkPos_def)
  have pt: "points slums = - 6" by (simp add: points_def)
  note step = cascade_change_step [OF q r]
  from step wf have c1: "getCell (rgrid (rebuild_step slumsRebuild)) (mkPos 0 0 0 0) = Some slums"
    by blast
  from step have c2: "rscore (rebuild_step slumsRebuild) = rscore slumsRebuild + points slums"
    and c3: "visited (rebuild_step slumsRebuild) = {}"
    and c4: "upgradeCount (rebuild_step slumsRebuild) = upgradeCount slumsRebuild + 1"
    and c5: "queue (rebuild_step slumsRebuild) =
           []
           @ map fst (getAdjacentCells (rgrid (rebuild_step slumsRebuild)) (mkPos 0 0 0 0))
           @ superblockPositions (superblockRow (mkPos 0 0 0 0)) (superblockCol (mkPos 0 0 0 0))
           @ concat (map (\<lambda>(sbRow, sbCol). superblockPositions sbRow sbCol)
               (getAdjacentSuperblocks (superblockRow (mkPos 0 0 0 0)) (superblockCol (mkPos 0 0 0 0))))
           @ [mkPos 0 0 0 0]"
    by blast+
  have c5': "queue (rebuild_step slumsRebuild) =
      [mkPos 0 0 1 0, mkPos 0 0 0 1] @
      (superblockPositions (superblockRow (mkPos 0 0 0 0)) (superblockCol (mkPos 0 0 0 0))
           @ concat (map (\<lambda>(sbRow, sbCol). superblockPositions sbRow sbCol)
               (getAdjacentSuperblocks (superblockRow (mkPos 0 0 0 0)) (superblockCol (mkPos 0 0 0 0)))))
      @ [mkPos 0 0 0 0]"
    unfolding c5 a by simp
  show ?thesis
    unfolding c5' b using r c1 c2 c3 c4 s0 pt by simp
qed

section \<open>The Shopping Center rule\<close>

lemma resolve_shop:
  assumes "getCell g pos = Some shop"
  shows "resolve g pos =
    (if allMet (Some (commercial_bank pos g)) then Some bank
     else if allMet (Some (commercial_shopping_center pos g)) then Some shopping_center
     else if allMet (Some (commercial_restaurant pos g)) then Some restaurant
     else None)"
  using assms
  by (simp add: resolve_def getUpgradesForTile_def commercialUpgrades_def upgradePriority_def)

lemma shopping_center_met_iff:
  assumes "getCell g pos = Some shop"
  shows "allMet (map_of (getUpgradesForTile shop pos g) shopping_center) \<longleftrightarrow>
           list_ex (\<lambda>t. t = Some shopping_center) (adjacentTiles g pos)
           \<or> (3 \<le> fst (findConnectedCommercialCluster pos g) \<and> snd (findConnectedCommercialCluster pos g))"
  using assms
  by (simp add: getUpgradesForTile_def commercialUpgrades_def allMet_def
      commercial_shopping_center_def Let_def)

lemma bank_met_iff:
  assumes "getCell g pos = Some shop"
  shows "allMet (Some (commercial_bank pos g)) \<longleftrightarrow>
     4 \<le> countTileTypeInAdjacentSuperblocks g (superblockRow pos) (superblockCol pos) tier2_residential"
  using assms by (simp add: allMet_def commercial_bank_def Let_def)

text \<open>
  C5 (amended). For a shop with no orthogonal neighbour that is a shopping center: when
  its connected commercial cluster has exactly size 2, the Shopping Center candidate is
  not satisfied and the resolver never selects Shopping Center. When the cluster has size
  3 and one of its members is an edge cell, the Shopping Center candidate is satisfied,
  and the resolver selects Shopping Center unless the Bank candidate (four or more Tier-2
  residential tiles in the adjacent superblocks) is satisfied, which stands before it in
  the order and is selected instead. An orthogonal neighbour that is a shopping center
  satisfies the Shopping Center candidate by itself.
\<close>

theorem shopping_center_cluster_rule:
  assumes "getCell g pos = Some shop"
  shows "(\<not> list_ex (\<lambda>t. t = Some shopping_center) (adjacentTiles g pos)
            \<and> fst (findConnectedCommercialCluster pos g) = 2 \<longrightarrow>
          \<not> allMet (map_of (getUpgradesForTile shop pos g) shopping_center)
          \<and> resolve g pos \<noteq> Some shopping_center)
       \<and> (fst (findConnectedCommercialCluster pos g) = 3 \<and> snd (findConnectedCommercialCluster pos g) \<longrightarrow>
          allMet (map_of (getUpgradesForTile shop pos g) shopping_center)
          \<and> resolve g pos =
              (if 4 \<le> countTileTypeInAdjacentSuperblocks g (superblockRow pos) (superblockCol pos)
                        tier2_residential
               then Some bank else Some shopping_center))
       \<and> (list_ex (\<lambda>t. t = Some shopping_center) (adjacentTiles g pos) \<longrightarrow>
          allMet (map_of (getUpgradesForTile shop pos g) shopping_center))"
proof -
  have sc: "allMet (map_of (getUpgradesForTile shop pos g) shopping_center)
            = allMet (Some (commercial_shopping_center pos g))"
    by (simp add: getUpgradesForTile_def commercialUpgrades_def)
  show ?thesis
    using shopping_center_met_iff [OF assms] resolve_shop [OF assms] bank_met_iff [OF assms]
    unfolding sc by auto
qed

lemma shopRow_cluster: "findConnectedCommercialCluster (mkPos 0 0 0 0) shopRowBoard = (3, True)"
  by (simp add: findConnectedCommercialCluster_def shopRowBoard_def accessor_defs)

lemma shopPair_cluster: "findConnectedCommercialCluster (mkPos 0 0 0 0) shopPairBoard = (2, True)"
  by (simp add: findConnectedCommercialCluster_def shopPairBoard_def accessor_defs)

theorem shopping_center_cluster_rule_witness:
  "getCell shopRowBoard (mkPos 0 0 0 0) = Some shop
   \<and> findConnectedCommercialCluster (mkPos 0 0 0 0) shopRowBoard = (3, True)
   \<and> resolve shopRowBoard (mkPos 0 0 0 0) = Some shopping_center
   \<and> getCell shopPairBoard (mkPos 0 0 0 0) = Some shop
   \<and> findConnectedCommercialCluster (mkPos 0 0 0 0) shopPairBoard = (2, True)
   \<and> resolve shopPairBoard (mkPos 0 0 0 0) \<noteq> Some shopping_center
   \<and> getCell mallBoard (mkPos 0 0 0 1) = Some shop
   \<and> allMet (map_of (getUpgradesForTile shop (mkPos 0 0 0 1) mallBoard) shopping_center)"
proof -
  have g1: "getCell shopRowBoard (mkPos 0 0 0 0) = Some shop"
    by (simp add: shopRowBoard_def accessor_defs)
  have t1: "\<not> 4 \<le> countTileTypeInAdjacentSuperblocks shopRowBoard
                (superblockRow (mkPos 0 0 0 0)) (superblockCol (mkPos 0 0 0 0)) tier2_residential"
    by (simp add: shopRowBoard_def accessor_defs)
  have g2: "getCell shopPairBoard (mkPos 0 0 0 0) = Some shop"
    by (simp add: shopPairBoard_def accessor_defs)
  have n2: "\<not> list_ex (\<lambda>t. t = Some shopping_center) (adjacentTiles shopPairBoard (mkPos 0 0 0 0))"
    by (simp add: shopPairBoard_def accessor_defs)
  have g3: "getCell mallBoard (mkPos 0 0 0 1) = Some shop"
    by (simp add: mallBoard_def accessor_defs)
  have a3: "list_ex (\<lambda>t. t = Some shopping_center) (adjacentTiles mallBoard (mkPos 0 0 0 1))"
    by (simp add: mallBoard_def accessor_defs)
  from shopping_center_cluster_rule [OF g1] shopRow_cluster t1
  have r1: "resolve shopRowBoard (mkPos 0 0 0 0) = Some shopping_center" by simp
  from shopping_center_cluster_rule [OF g2] shopPair_cluster n2
  have r2: "resolve shopPairBoard (mkPos 0 0 0 0) \<noteq> Some shopping_center" by simp
  from shopping_center_cluster_rule [OF g3] a3
  have r3: "allMet (map_of (getUpgradesForTile shop (mkPos 0 0 0 1) mallBoard) shopping_center)" by simp
  show ?thesis using g1 g2 g3 r1 r2 r3 shopRow_cluster shopPair_cluster by simp
qed

theorem cluster_of_three_becomes_bank:
  "getCell bankBoard (mkPos 0 0 0 0) = Some shop
   \<and> \<not> list_ex (\<lambda>t. t = Some shopping_center) (adjacentTiles bankBoard (mkPos 0 0 0 0))
   \<and> findConnectedCommercialCluster (mkPos 0 0 0 0) bankBoard = (3, True)
   \<and> resolve bankBoard (mkPos 0 0 0 0) = Some bank"
  by (simp add: resolve_def findConnectedCommercialCluster_def bankBoard_def rule_defs accessor_defs)

section \<open>Reasoning about the rebuild loop\<close>

text \<open>An invariant of the loop body holds of the state the loop returns.\<close>

lemma rebuild_loop_invariant:
  assumes "rebuild_loop st = Inr st'" and "I st"
    and step: "\<And>s. I s \<Longrightarrow> queue s \<noteq> [] \<Longrightarrow> upgradeCount s < MAX_UPGRADES \<Longrightarrow> I (rebuild_step s)"
  shows "I st' \<and> queue st' = []"
  using assms(1,2)
proof (induction st rule: rebuild_loop.induct)
  case (1 st)
  show ?case
  proof (cases "queue st = []")
    case True
    with "1.prems" show ?thesis by (simp add: rebuild_loop_Nil)
  next
    case False
    show ?thesis
    proof (cases "MAX_UPGRADES \<le> upgradeCount st")
      case True
      with False "1.prems"(1) show ?thesis by (simp add: rebuild_loop.simps [of st])
    next
      case lim: False
      then have r: "rebuild_loop (rebuild_step st) = Inr st'"
        using False "1.prems"(1) by (simp add: rebuild_loop.simps [of st])
      have "I (rebuild_step st)" using step [OF "1.prems"(2) False] lim by simp
      from "1.IH" [OF False lim r this] show ?thesis .
    qed
  qed
qed

text \<open>
  If the invariant also keeps the counter below the limit while the queue is not empty,
  the loop returns.
\<close>

lemma rebuild_loop_returns:
  assumes "I st"
    and step: "\<And>s. I s \<Longrightarrow> queue s \<noteq> [] \<Longrightarrow> upgradeCount s < MAX_UPGRADES \<and> I (rebuild_step s)"
  shows "\<exists>st'. rebuild_loop st = Inr st' \<and> I st' \<and> queue st' = []"
  using assms(1)
proof (induction st rule: rebuild_loop.induct)
  case (1 st)
  show ?case
  proof (cases "queue st = []")
    case True
    with "1.prems" show ?thesis by (simp add: rebuild_loop_Nil)
  next
    case False
    from step [OF "1.prems" False] have lim: "\<not> MAX_UPGRADES \<le> upgradeCount st"
      and i: "I (rebuild_step st)" by simp_all
    from "1.IH" [OF False lim i] show ?thesis
      using False lim by (simp add: rebuild_loop.simps [of st])
  qed
qed

section \<open>Categories are preserved\<close>

lemma resolve_category:
  assumes "getCell g pos = Some cur" "resolve g pos = Some t"
  shows "tileToCategory t = tileToCategory cur"
proof -
  from assms have "allMet (map_of (getUpgradesForTile cur pos g) t)"
    using appliedUpgrade_Some by (fastforce simp: resolve_def)
  then obtain res where "map_of (getUpgradesForTile cur pos g) t = Some res"
    by (cases "map_of (getUpgradesForTile cur pos g) t") simp_all
  then show ?thesis by (rule candidates_category)
qed

lemma rebuild_step_category:
  assumes wf: "grid_wf (rgrid st)" and c: "hasCategory cat (getCell (rgrid st) q)"
  shows "grid_wf (rgrid (rebuild_step st)) \<and> hasCategory cat (getCell (rgrid (rebuild_step st)) q)"
proof (cases "queue st")
  case Nil
  then show ?thesis using assms by (simp add: rebuild_step_resolve)
next
  case (Cons pos rest)
  show ?thesis
  proof (cases "pos \<in> visited st")
    case True
    then show ?thesis using assms Cons by (simp add: rebuild_step_resolve)
  next
    case nv: False
    show ?thesis
    proof (cases "resolve (rgrid st) pos")
      case None
      then show ?thesis using assms Cons nv by (simp add: rebuild_step_resolve)
    next
      case (Some upgrade)
      then obtain cur where cur: "getCell (rgrid st) pos = Some cur"
        using resolve_Some_occupied by blast
      have v: "valid_pos pos" using cur by (rule getCell_Some_valid)
      have same: "tileToCategory upgrade = tileToCategory cur"
        using resolve_category [OF cur Some] .
      have g: "rgrid (rebuild_step st) = setCell (rgrid st) pos (Some upgrade)"
        using Cons nv Some by (simp add: rebuild_step_resolve)
      show ?thesis
        unfolding g using wf c cur same v
        by (auto simp: getCell_setCell grid_wf_setCell hasCategory_def)
    qed
  qed
qed

lemma rebuild_loop_category:
  assumes "rebuild_loop st = Inr st'" "grid_wf (rgrid st)" "hasCategory cat (getCell (rgrid st) q)"
  shows "hasCategory cat (getCell (rgrid st') q)"
proof -
  have "(grid_wf (rgrid st') \<and> hasCategory cat (getCell (rgrid st') q)) \<and> queue st' = []"
    by (rule rebuild_loop_invariant [OF assms(1), where I = "\<lambda>s. grid_wf (rgrid s) \<and> hasCategory cat (getCell (rgrid s) q)"])
       (use assms in \<open>auto simp: rebuild_step_category\<close>)
  then show ?thesis by simp
qed

lemma placeTile_cases:
  assumes "placeTile rnd s pos = Inr (b, s')"
  obtains (rejected) "\<not> b" "s' = s" "getCell (grid s) pos \<noteq> None \<or> deck s = []"
  | (placed) category rest st' where "b" "getCell (grid s) pos = None" "deck s = category # rest"
      "rebuild_loop (rebuild_start s pos (categoryToDefaultTile category)) = Inr st'"
      "s' = s\<lparr>deck := fillDeck rnd rest, grid := rgrid st', score := rscore st', turn := turn s + 1\<rparr>"
proof (cases "getCell (grid s) pos \<noteq> None \<or> deck s = []")
  case True
  then have "placeTile rnd s pos = Inr (False, s)" by (auto simp: placeTile_def)
  with assms True rejected show ?thesis by simp
next
  case False
  then obtain category rest where d: "deck s = category # rest" and e: "getCell (grid s) pos = None"
    by (cases "deck s") auto
  from assms d e obtain st' where
    l: "rebuild_loop (rebuild_start s pos (categoryToDefaultTile category)) = Inr st'"
    and s': "s' = s\<lparr>deck := fillDeck rnd rest, grid := rgrid st', score := rscore st', turn := turn s + 1\<rparr>"
    and b: "b"
    by (auto simp: placeTile_def runRebuildPhase_def rebuild_start_def Let_def split: sum.splits)
  from placed [OF b e d l s'] show ?thesis .
qed

lemma placeTile_category:
  assumes wf: "grid_wf (grid s)" and v: "valid_pos pos"
    and p: "placeTile rnd s pos = Inr (b, s')"
  shows "hasCategory cat (getCell (grid s) q) \<longrightarrow> hasCategory cat (getCell (grid s') q)"
    and "b \<longrightarrow> hasCategory (hd (deck s)) (getCell (grid s') pos)"
proof -
  from p show "hasCategory cat (getCell (grid s) q) \<longrightarrow> hasCategory cat (getCell (grid s') q)"
  proof (cases rule: placeTile_cases)
    case rejected
    then show ?thesis by simp
  next
    case (placed category rest st')
    show ?thesis
    proof
      assume c: "hasCategory cat (getCell (grid s) q)"
      then have "q \<noteq> pos" using placed(2) by (auto simp: hasCategory_def)
      then have "hasCategory cat (getCell (rgrid (rebuild_start s pos (categoryToDefaultTile category))) q)"
        using c wf v by (simp add: rebuild_start_def getCell_setCell)
      moreover have "grid_wf (rgrid (rebuild_start s pos (categoryToDefaultTile category)))"
        using wf by (simp add: rebuild_start_def grid_wf_setCell)
      ultimately show "hasCategory cat (getCell (grid s') q)"
        using rebuild_loop_category [OF placed(4)] placed(5) by simp
    qed
  qed
  from p show "b \<longrightarrow> hasCategory (hd (deck s)) (getCell (grid s') pos)"
  proof (cases rule: placeTile_cases)
    case rejected
    then show ?thesis by simp
  next
    case (placed category rest st')
    have "hasCategory category (getCell (rgrid (rebuild_start s pos (categoryToDefaultTile category))) pos)"
      using wf v by (cases category) (simp_all add: rebuild_start_def getCell_setCell hasCategory_def)
    moreover have "grid_wf (rgrid (rebuild_start s pos (categoryToDefaultTile category)))"
      using wf by (simp add: rebuild_start_def grid_wf_setCell)
    ultimately show ?thesis
      using rebuild_loop_category [OF placed(4)] placed(3,5) by simp
  qed
qed

lemma rebuild_step_wf: "grid_wf (rgrid st) \<Longrightarrow> grid_wf (rgrid (rebuild_step st))"
  by (simp add: rebuild_step_resolve grid_wf_setCell split: list.split option.split)

lemma rebuild_loop_wf:
  assumes "rebuild_loop st = Inr st'" "grid_wf (rgrid st)"
  shows "grid_wf (rgrid st')"
  using rebuild_loop_invariant [OF assms(1), where I = "\<lambda>s. grid_wf (rgrid s)"] assms(2)
  by (simp add: rebuild_step_wf)

lemma placeTile_wf:
  assumes "grid_wf (grid s)" "placeTile rnd s pos = Inr (b, s')"
  shows "grid_wf (grid s')"
  using assms(2)
proof (cases rule: placeTile_cases)
  case rejected
  then show ?thesis using assms(1) by simp
next
  case (placed category rest st')
  have "grid_wf (rgrid (rebuild_start s pos (categoryToDefaultTile category)))"
    using assms(1) by (simp add: rebuild_start_def grid_wf_setCell)
  from rebuild_loop_wf [OF placed(4) this] placed(5) show ?thesis by simp
qed

lemma placements_category:
  assumes "placement\<^sup>*\<^sup>* s s'" "grid_wf (grid s)"
  shows "grid_wf (grid s') \<and> (hasCategory cat (getCell (grid s) q) \<longrightarrow> hasCategory cat (getCell (grid s') q))"
  using assms
proof (induction rule: rtranclp_induct)
  case base
  then show ?case by simp
next
  case (step s1 s2)
  from step.hyps(2) obtain rnd pos b where v: "valid_pos pos" and p: "placeTile rnd s1 pos = Inr (b, s2)"
    unfolding placement_def by blast
  from step.IH [OF step.prems] have wf: "grid_wf (grid s1)"
    and c: "hasCategory cat (getCell (grid s) q) \<longrightarrow> hasCategory cat (getCell (grid s1) q)" by simp_all
  show ?case
    using placeTile_wf [OF wf p] placeTile_category(1) [OF wf v p, of cat q] c by blast
qed

text \<open>
  C9. Every key of the candidate map of a tile is a kind of that tile's category, so the
  change the resolver selects for a cell keeps its category. Hence a returning placement
  leaves every tile that was on the board in its category, and the tile it places is of
  the category drawn from the deck; and so through any number of placements every tile
  stays in the category it has.
\<close>

theorem category_preserved:
  "(map_of (getUpgradesForTile cur pos g) t = Some res \<longrightarrow> tileToCategory t = tileToCategory cur)
   \<and> (getCell g pos = Some cur \<and> resolve g pos = Some t \<longrightarrow> tileToCategory t = tileToCategory cur)
   \<and> (grid_wf (grid s) \<and> valid_pos p \<and> placeTile rnd s p = Inr (b, s') \<longrightarrow>
        (\<forall>q t0. getCell (grid s) q = Some t0 \<longrightarrow>
           (\<exists>t1. getCell (grid s') q = Some t1 \<and> tileToCategory t1 = tileToCategory t0))
        \<and> (b \<longrightarrow> (\<exists>t1. getCell (grid s') p = Some t1 \<and> tileToCategory t1 = hd (deck s))))
   \<and> (grid_wf (grid s0) \<and> placement\<^sup>*\<^sup>* s0 s1 \<and> getCell (grid s0) q0 = Some t0 \<longrightarrow>
        (\<exists>t1. getCell (grid s1) q0 = Some t1 \<and> tileToCategory t1 = tileToCategory t0))"
proof (intro conjI impI allI)
  assume "map_of (getUpgradesForTile cur pos g) t = Some res"
  then show "tileToCategory t = tileToCategory cur" by (rule candidates_category)
next
  assume "getCell g pos = Some cur \<and> resolve g pos = Some t"
  then show "tileToCategory t = tileToCategory cur" using resolve_category by blast
next
  fix q t0
  assume a: "grid_wf (grid s) \<and> valid_pos p \<and> placeTile rnd s p = Inr (b, s')"
    and c: "getCell (grid s) q = Some t0"
  from c have "hasCategory (tileToCategory t0) (getCell (grid s) q)" by (simp add: hasCategory_def)
  with a placeTile_category(1) [of s p rnd b s' "tileToCategory t0" q]
  have "hasCategory (tileToCategory t0) (getCell (grid s') q)" by blast
  then show "\<exists>t1. getCell (grid s') q = Some t1 \<and> tileToCategory t1 = tileToCategory t0"
    by (auto simp: hasCategory_def split: option.splits)
next
  assume a: "grid_wf (grid s) \<and> valid_pos p \<and> placeTile rnd s p = Inr (b, s')" and b: b
  with placeTile_category(2) [of s p rnd b s']
  have "hasCategory (hd (deck s)) (getCell (grid s') p)" by blast
  then show "\<exists>t1. getCell (grid s') p = Some t1 \<and> tileToCategory t1 = hd (deck s)"
    by (auto simp: hasCategory_def split: option.splits)
next
  assume a: "grid_wf (grid s0) \<and> placement\<^sup>*\<^sup>* s0 s1 \<and> getCell (grid s0) q0 = Some t0"
  then have "hasCategory (tileToCategory t0) (getCell (grid s0) q0)" by (simp add: hasCategory_def)
  with a placements_category [of s0 s1 "tileToCategory t0" q0]
  have "hasCategory (tileToCategory t0) (getCell (grid s1) q0)" by blast
  then show "\<exists>t1. getCell (grid s1) q0 = Some t1 \<and> tileToCategory t1 = tileToCategory t0"
    by (auto simp: hasCategory_def split: option.splits)
qed

section \<open>Placements that change nothing\<close>

lemma rebuild_loop_stable:
  assumes "\<forall>q \<in> set (queue st). resolve (rgrid st) q = None" "upgradeCount st < MAX_UPGRADES"
  shows "rebuild_loop st = Inr (st\<lparr>queue := [], visited := visited st \<union> set (queue st)\<rparr>)"
  using assms
proof (induction "queue st" arbitrary: st)
  case Nil
  then show ?case by (simp add: rebuild_loop_Nil)
next
  case (Cons pos rest)
  let ?st' = "rebuild_step st"
  have q: "queue st = pos # rest" using Cons.hyps(2) by simp
  have r: "resolve (rgrid st) pos = None" using Cons.prems(1) q by simp
  have step: "?st' = st\<lparr>queue := rest, visited := (if pos \<in> visited st then visited st else insert pos (visited st))\<rparr>"
    using q r by (simp add: rebuild_step_resolve)
  have "rebuild_loop ?st' = Inr (?st'\<lparr>queue := [], visited := visited ?st' \<union> set (queue ?st')\<rparr>)"
  proof (rule Cons.hyps(1))
    show "rest = queue ?st'" by (simp add: step)
    show "\<forall>q\<in>set (queue ?st'). resolve (rgrid ?st') q = None"
      using Cons.prems(1) q by (simp add: step)
    show "upgradeCount ?st' < MAX_UPGRADES" using Cons.prems(2) by (simp add: step)
  qed
  moreover have "rebuild_loop st = rebuild_loop ?st'"
    using q Cons.prems(2) by (simp add: rebuild_loop_Cons)
  moreover have "?st'\<lparr>queue := [], visited := visited ?st' \<union> set (queue ?st')\<rparr>
      = st\<lparr>queue := [], visited := visited st \<union> set (queue st)\<rparr>"
    by (auto simp: step q insert_absorb)
  ultimately show ?case by simp
qed

lemma fillDeck_full: "length d \<ge> DECK_SIZE \<Longrightarrow> fillDeck rnd d = d"
  by (simp add: fillDeck_def fillDeck_loop.simps)

lemma fillDeck_loop_Cons: "\<exists>d'. fillDeck_loop rnd k (x # d) = x # d'"
proof (induction rnd k "x # d" arbitrary: d rule: fillDeck_loop.induct)
  case (1 rnd k)
  show ?case
  proof (cases "length (x # d) < DECK_SIZE")
    case True
    from "1.hyps" [OF True, of "d @ [rnd k]"] show ?thesis
      using True by (simp add: fillDeck_loop.simps [of rnd k "x # d"])
  next
    case False
    then show ?thesis by (simp add: fillDeck_loop.simps [of rnd k "x # d"])
  qed
qed

lemma fillDeck_four: "length d = 4 \<Longrightarrow> fillDeck rnd d = d @ [rnd 0]"
  by (simp add: fillDeck_def fillDeck_loop.simps DECK_SIZE_def)

text \<open>A placement after which no cell of the superblock has a change to make.\<close>

lemma placeTile_stable:
  assumes "getCell (grid s) pos = None" "deck s = category # rest"
    and "list_all (\<lambda>q. resolve (setCell (grid s) pos (Some (categoryToDefaultTile category))) q = None)
           (superblockPositions (superblockRow pos) (superblockCol pos))"
  shows "placeTile rnd s pos =
     Inr (True, s\<lparr>deck := fillDeck rnd rest,
                  grid := setCell (grid s) pos (Some (categoryToDefaultTile category)),
                  turn := turn s + 1\<rparr>)"
proof -
  let ?st = "\<lparr>rgrid = setCell (grid s) pos (Some (categoryToDefaultTile category)), rscore = score s,
              queue = superblockPositions (superblockRow pos) (superblockCol pos),
              visited = {}, upgradeCount = 0\<rparr>"
  have "rebuild_loop ?st = Inr (?st\<lparr>queue := [], visited := visited ?st \<union> set (queue ?st)\<rparr>)"
    by (rule rebuild_loop_stable) (use assms(3) in \<open>simp_all add: list_all_iff MAX_UPGRADES_def\<close>)
  then show ?thesis
    using assms(1,2) by (simp add: placeTile_def runRebuildPhase_def Let_def)
qed

section \<open>A placement that leaves an upgrade pending in a neighbouring superblock\<close>

lemma pend_stable1:
  "list_all (\<lambda>q. resolve pend_board1 q = None) (superblockPositions 0 0)"
  unfolding superblockPositions_def concat.simps list.map append.simps list.pred_inject
  by (simp add: resolve_def pend_board1_def rule_defs accessor_defs)

lemma pend_place1:
  "placeTile (\<lambda>k. R) pend_store0 (mkPos 0 0 0 0) = Inr (True, pend_store1)"
proof -
  have g: "getCell (grid pend_store0) (mkPos 0 0 0 0) = None"
    by (simp add: pend_store0_def pend_board0_def accessor_defs)
  have d: "deck pend_store0 = C # take 4 (drop 1 pend_draws)"
    by (simp add: pend_store0_def pend_draws_def)
  have b: "setCell (grid pend_store0) (mkPos 0 0 0 0) (Some (categoryToDefaultTile C)) = pend_board1"
    by (simp add: pend_store0_def pend_board0_def pend_board1_def setCell_def valid_pos_def mkPos_def
        emptyRow_def emptyBlock_def)
  have s: "list_all (\<lambda>q. resolve (setCell (grid pend_store0) (mkPos 0 0 0 0) (Some (categoryToDefaultTile C))) q = None)
      (superblockPositions (superblockRow (mkPos 0 0 0 0)) (superblockCol (mkPos 0 0 0 0)))"
    unfolding b using pend_stable1 by (simp add: mkPos_def)
  have f: "fillDeck (\<lambda>k. R) (take 4 (drop 1 pend_draws)) = take 5 (drop 1 pend_draws)"
    by (simp add: pend_draws_def fillDeck_four)
  show ?thesis
    unfolding placeTile_stable [OF g d s] b f
    by (simp add: pend_store0_def pend_store1_def)
qed

lemma pend_stable2:
  "list_all (\<lambda>q. resolve pend_board2 q = None) (superblockPositions 0 0)"
  unfolding superblockPositions_def concat.simps list.map append.simps list.pred_inject
  by (simp add: resolve_def pend_board2_def rule_defs accessor_defs)

lemma pend_place2:
  "placeTile (\<lambda>k. R) pend_store1 (mkPos 0 0 0 1) = Inr (True, pend_store2)"
proof -
  have g: "getCell (grid pend_store1) (mkPos 0 0 0 1) = None"
    by (simp add: pend_store1_def pend_board1_def accessor_defs)
  have d: "deck pend_store1 = C # take 4 (drop 2 pend_draws)"
    by (simp add: pend_store1_def pend_draws_def)
  have b: "setCell (grid pend_store1) (mkPos 0 0 0 1) (Some (categoryToDefaultTile C)) = pend_board2"
    by (simp add: pend_store1_def pend_board1_def pend_board2_def setCell_def valid_pos_def mkPos_def
        emptyRow_def emptyBlock_def)
  have s: "list_all (\<lambda>q. resolve (setCell (grid pend_store1) (mkPos 0 0 0 1) (Some (categoryToDefaultTile C))) q = None)
      (superblockPositions (superblockRow (mkPos 0 0 0 1)) (superblockCol (mkPos 0 0 0 1)))"
    unfolding b using pend_stable2 by (simp add: mkPos_def)
  have f: "fillDeck (\<lambda>k. R) (take 4 (drop 2 pend_draws)) = take 5 (drop 2 pend_draws)"
    by (simp add: pend_draws_def fillDeck_four)
  show ?thesis
    unfolding placeTile_stable [OF g d s] b f
    by (simp add: pend_store1_def pend_store2_def)
qed

lemma pend_stable3:
  "list_all (\<lambda>q. resolve pend_board3 q = None) (superblockPositions 0 0)"
  unfolding superblockPositions_def concat.simps list.map append.simps list.pred_inject
  by (simp add: resolve_def pend_board3_def rule_defs accessor_defs)

lemma pend_place3:
  "placeTile (\<lambda>k. R) pend_store2 (mkPos 0 0 2 0) = Inr (True, pend_store3)"
proof -
  have g: "getCell (grid pend_store2) (mkPos 0 0 2 0) = None"
    by (simp add: pend_store2_def pend_board2_def accessor_defs)
  have d: "deck pend_store2 = R # take 4 (drop 3 pend_draws)"
    by (simp add: pend_store2_def pend_draws_def)
  have b: "setCell (grid pend_store2) (mkPos 0 0 2 0) (Some (categoryToDefaultTile R)) = pend_board3"
    by (simp add: pend_store2_def pend_board2_def pend_board3_def setCell_def valid_pos_def mkPos_def
        emptyRow_def emptyBlock_def)
  have s: "list_all (\<lambda>q. resolve (setCell (grid pend_store2) (mkPos 0 0 2 0) (Some (categoryToDefaultTile R))) q = None)
      (superblockPositions (superblockRow (mkPos 0 0 2 0)) (superblockCol (mkPos 0 0 2 0)))"
    unfolding b using pend_stable3 by (simp add: mkPos_def)
  have f: "fillDeck (\<lambda>k. R) (take 4 (drop 3 pend_draws)) = take 5 (drop 3 pend_draws)"
    by (simp add: pend_draws_def fillDeck_four)
  show ?thesis
    unfolding placeTile_stable [OF g d s] b f
    by (simp add: pend_store2_def pend_store3_def)
qed

lemma pend_stable4:
  "list_all (\<lambda>q. resolve pend_board4 q = None) (superblockPositions 0 0)"
  unfolding superblockPositions_def concat.simps list.map append.simps list.pred_inject
  by (simp add: resolve_def pend_board4_def rule_defs accessor_defs)

lemma pend_place4:
  "placeTile (\<lambda>k. L) pend_store3 (mkPos 0 0 2 1) = Inr (True, pend_store4)"
proof -
  have g: "getCell (grid pend_store3) (mkPos 0 0 2 1) = None"
    by (simp add: pend_store3_def pend_board3_def accessor_defs)
  have d: "deck pend_store3 = R # take 4 (drop 4 pend_draws)"
    by (simp add: pend_store3_def pend_draws_def)
  have b: "setCell (grid pend_store3) (mkPos 0 0 2 1) (Some (categoryToDefaultTile R)) = pend_board4"
    by (simp add: pend_store3_def pend_board3_def pend_board4_def setCell_def valid_pos_def mkPos_def
        emptyRow_def emptyBlock_def)
  have s: "list_all (\<lambda>q. resolve (setCell (grid pend_store3) (mkPos 0 0 2 1) (Some (categoryToDefaultTile R))) q = None)
      (superblockPositions (superblockRow (mkPos 0 0 2 1)) (superblockCol (mkPos 0 0 2 1)))"
    unfolding b using pend_stable4 by (simp add: mkPos_def)
  have f: "fillDeck (\<lambda>k. L) (take 4 (drop 4 pend_draws)) = take 5 (drop 4 pend_draws)"
    by (simp add: pend_draws_def fillDeck_four)
  show ?thesis
    unfolding placeTile_stable [OF g d s] b f
    by (simp add: pend_store3_def pend_store4_def)
qed

lemma pend_stable5:
  "list_all (\<lambda>q. resolve pend_board5 q = None) (superblockPositions 0 0)"
  unfolding superblockPositions_def concat.simps list.map append.simps list.pred_inject
  by (simp add: resolve_def pend_board5_def rule_defs accessor_defs)

lemma pend_place5:
  "placeTile (\<lambda>k. R) pend_store4 (mkPos 0 0 2 2) = Inr (True, pend_store5)"
proof -
  have g: "getCell (grid pend_store4) (mkPos 0 0 2 2) = None"
    by (simp add: pend_store4_def pend_board4_def accessor_defs)
  have d: "deck pend_store4 = R # take 4 (drop 5 pend_draws)"
    by (simp add: pend_store4_def pend_draws_def)
  have b: "setCell (grid pend_store4) (mkPos 0 0 2 2) (Some (categoryToDefaultTile R)) = pend_board5"
    by (simp add: pend_store4_def pend_board4_def pend_board5_def setCell_def valid_pos_def mkPos_def
        emptyRow_def emptyBlock_def)
  have s: "list_all (\<lambda>q. resolve (setCell (grid pend_store4) (mkPos 0 0 2 2) (Some (categoryToDefaultTile R))) q = None)
      (superblockPositions (superblockRow (mkPos 0 0 2 2)) (superblockCol (mkPos 0 0 2 2)))"
    unfolding b using pend_stable5 by (simp add: mkPos_def)
  have f: "fillDeck (\<lambda>k. R) (take 4 (drop 5 pend_draws)) = take 5 (drop 5 pend_draws)"
    by (simp add: pend_draws_def fillDeck_four)
  show ?thesis
    unfolding placeTile_stable [OF g d s] b f
    by (simp add: pend_store4_def pend_store5_def)
qed

lemma pend_stable6:
  "list_all (\<lambda>q. resolve pend_board6 q = None) (superblockPositions 1 0)"
  unfolding superblockPositions_def concat.simps list.map append.simps list.pred_inject
  by (simp add: resolve_def pend_board6_def rule_defs accessor_defs)

lemma pend_place6:
  "placeTile (\<lambda>k. R) pend_store5 (mkPos 1 0 0 0) = Inr (True, pend_store6)"
proof -
  have g: "getCell (grid pend_store5) (mkPos 1 0 0 0) = None"
    by (simp add: pend_store5_def pend_board5_def accessor_defs)
  have d: "deck pend_store5 = R # take 4 (drop 6 pend_draws)"
    by (simp add: pend_store5_def pend_draws_def)
  have b: "setCell (grid pend_store5) (mkPos 1 0 0 0) (Some (categoryToDefaultTile R)) = pend_board6"
    by (simp add: pend_store5_def pend_board5_def pend_board6_def setCell_def valid_pos_def mkPos_def
        emptyRow_def emptyBlock_def)
  have s: "list_all (\<lambda>q. resolve (setCell (grid pend_store5) (mkPos 1 0 0 0) (Some (categoryToDefaultTile R))) q = None)
      (superblockPositions (superblockRow (mkPos 1 0 0 0)) (superblockCol (mkPos 1 0 0 0)))"
    unfolding b using pend_stable6 by (simp add: mkPos_def)
  have f: "fillDeck (\<lambda>k. R) (take 4 (drop 6 pend_draws)) = take 5 (drop 6 pend_draws)"
    by (simp add: pend_draws_def fillDeck_four)
  show ?thesis
    unfolding placeTile_stable [OF g d s] b f
    by (simp add: pend_store5_def pend_store6_def)
qed

lemma pend_stable7:
  "list_all (\<lambda>q. resolve pend_board7 q = None) (superblockPositions 1 0)"
  unfolding superblockPositions_def concat.simps list.map append.simps list.pred_inject
  by (simp add: resolve_def pend_board7_def rule_defs accessor_defs)

lemma pend_place7:
  "placeTile (\<lambda>k. R) pend_store6 (mkPos 1 0 0 1) = Inr (True, pend_store7)"
proof -
  have g: "getCell (grid pend_store6) (mkPos 1 0 0 1) = None"
    by (simp add: pend_store6_def pend_board6_def accessor_defs)
  have d: "deck pend_store6 = R # take 4 (drop 7 pend_draws)"
    by (simp add: pend_store6_def pend_draws_def)
  have b: "setCell (grid pend_store6) (mkPos 1 0 0 1) (Some (categoryToDefaultTile R)) = pend_board7"
    by (simp add: pend_store6_def pend_board6_def pend_board7_def setCell_def valid_pos_def mkPos_def
        emptyRow_def emptyBlock_def)
  have s: "list_all (\<lambda>q. resolve (setCell (grid pend_store6) (mkPos 1 0 0 1) (Some (categoryToDefaultTile R))) q = None)
      (superblockPositions (superblockRow (mkPos 1 0 0 1)) (superblockCol (mkPos 1 0 0 1)))"
    unfolding b using pend_stable7 by (simp add: mkPos_def)
  have f: "fillDeck (\<lambda>k. R) (take 4 (drop 7 pend_draws)) = take 5 (drop 7 pend_draws)"
    by (simp add: pend_draws_def fillDeck_four)
  show ?thesis
    unfolding placeTile_stable [OF g d s] b f
    by (simp add: pend_store6_def pend_store7_def)
qed

lemma pend_stable8:
  "list_all (\<lambda>q. resolve pend_board8 q = None) (superblockPositions 1 0)"
  unfolding superblockPositions_def concat.simps list.map append.simps list.pred_inject
  by (simp add: resolve_def pend_board8_def rule_defs accessor_defs)

lemma pend_place8:
  "placeTile (\<lambda>k. R) pend_store7 (mkPos 1 0 0 2) = Inr (True, pend_store8)"
proof -
  have g: "getCell (grid pend_store7) (mkPos 1 0 0 2) = None"
    by (simp add: pend_store7_def pend_board7_def accessor_defs)
  have d: "deck pend_store7 = R # take 4 (drop 8 pend_draws)"
    by (simp add: pend_store7_def pend_draws_def)
  have b: "setCell (grid pend_store7) (mkPos 1 0 0 2) (Some (categoryToDefaultTile R)) = pend_board8"
    by (simp add: pend_store7_def pend_board7_def pend_board8_def setCell_def valid_pos_def mkPos_def
        emptyRow_def emptyBlock_def)
  have s: "list_all (\<lambda>q. resolve (setCell (grid pend_store7) (mkPos 1 0 0 2) (Some (categoryToDefaultTile R))) q = None)
      (superblockPositions (superblockRow (mkPos 1 0 0 2)) (superblockCol (mkPos 1 0 0 2)))"
    unfolding b using pend_stable8 by (simp add: mkPos_def)
  have f: "fillDeck (\<lambda>k. R) (take 4 (drop 8 pend_draws)) = take 5 (drop 8 pend_draws)"
    by (simp add: pend_draws_def fillDeck_four)
  show ?thesis
    unfolding placeTile_stable [OF g d s] b f
    by (simp add: pend_store7_def pend_store8_def)
qed

lemma pend_stable9:
  "list_all (\<lambda>q. resolve pend_board9 q = None) (superblockPositions 0 1)"
  unfolding superblockPositions_def concat.simps list.map append.simps list.pred_inject
  by (simp add: resolve_def pend_board9_def rule_defs accessor_defs)

lemma pend_place9:
  "placeTile (\<lambda>k. R) pend_store8 (mkPos 0 1 0 0) = Inr (True, pend_store9)"
proof -
  have g: "getCell (grid pend_store8) (mkPos 0 1 0 0) = None"
    by (simp add: pend_store8_def pend_board8_def accessor_defs)
  have d: "deck pend_store8 = L # take 4 (drop 9 pend_draws)"
    by (simp add: pend_store8_def pend_draws_def)
  have b: "setCell (grid pend_store8) (mkPos 0 1 0 0) (Some (categoryToDefaultTile L)) = pend_board9"
    by (simp add: pend_store8_def pend_board8_def pend_board9_def setCell_def valid_pos_def mkPos_def
        emptyRow_def emptyBlock_def)
  have s: "list_all (\<lambda>q. resolve (setCell (grid pend_store8) (mkPos 0 1 0 0) (Some (categoryToDefaultTile L))) q = None)
      (superblockPositions (superblockRow (mkPos 0 1 0 0)) (superblockCol (mkPos 0 1 0 0)))"
    unfolding b using pend_stable9 by (simp add: mkPos_def)
  have f: "fillDeck (\<lambda>k. R) (take 4 (drop 9 pend_draws)) = take 5 (drop 9 pend_draws)"
    by (simp add: pend_draws_def fillDeck_four)
  show ?thesis
    unfolding placeTile_stable [OF g d s] b f
    by (simp add: pend_store8_def pend_store9_def)
qed

lemma pend_stable10:
  "list_all (\<lambda>q. resolve pend_board10 q = None) (superblockPositions 0 1)"
  unfolding superblockPositions_def concat.simps list.map append.simps list.pred_inject
  by (simp add: resolve_def pend_board10_def rule_defs accessor_defs)

lemma pend_place10:
  "placeTile (\<lambda>k. R) pend_store9 (mkPos 0 1 0 2) = Inr (True, pend_store10)"
proof -
  have g: "getCell (grid pend_store9) (mkPos 0 1 0 2) = None"
    by (simp add: pend_store9_def pend_board9_def accessor_defs)
  have d: "deck pend_store9 = R # take 4 (drop 10 pend_draws)"
    by (simp add: pend_store9_def pend_draws_def)
  have b: "setCell (grid pend_store9) (mkPos 0 1 0 2) (Some (categoryToDefaultTile R)) = pend_board10"
    by (simp add: pend_store9_def pend_board9_def pend_board10_def setCell_def valid_pos_def mkPos_def
        emptyRow_def emptyBlock_def)
  have s: "list_all (\<lambda>q. resolve (setCell (grid pend_store9) (mkPos 0 1 0 2) (Some (categoryToDefaultTile R))) q = None)
      (superblockPositions (superblockRow (mkPos 0 1 0 2)) (superblockCol (mkPos 0 1 0 2)))"
    unfolding b using pend_stable10 by (simp add: mkPos_def)
  have f: "fillDeck (\<lambda>k. R) (take 4 (drop 10 pend_draws)) = take 5 (drop 10 pend_draws)"
    by (simp add: pend_draws_def fillDeck_four)
  show ?thesis
    unfolding placeTile_stable [OF g d s] b f
    by (simp add: pend_store9_def pend_store10_def)
qed

lemma pend_stable11:
  "list_all (\<lambda>q. resolve pend_board11 q = None) (superblockPositions 0 1)"
  unfolding superblockPositions_def concat.simps list.map append.simps list.pred_inject
  by (simp add: resolve_def pend_board11_def rule_defs accessor_defs)

lemma pend_place11:
  "placeTile (\<lambda>k. R) pend_store10 (mkPos 0 1 2 0) = Inr (True, pend_store11)"
proof -
  have g: "getCell (grid pend_store10) (mkPos 0 1 2 0) = None"
    by (simp add: pend_store10_def pend_board10_def accessor_defs)
  have d: "deck pend_store10 = R # take 4 (drop 11 pend_draws)"
    by (simp add: pend_store10_def pend_draws_def)
  have b: "setCell (grid pend_store10) (mkPos 0 1 2 0) (Some (categoryToDefaultTile R)) = pend_board11"
    by (simp add: pend_store10_def pend_board10_def pend_board11_def setCell_def valid_pos_def mkPos_def
        emptyRow_def emptyBlock_def)
  have s: "list_all (\<lambda>q. resolve (setCell (grid pend_store10) (mkPos 0 1 2 0) (Some (categoryToDefaultTile R))) q = None)
      (superblockPositions (superblockRow (mkPos 0 1 2 0)) (superblockCol (mkPos 0 1 2 0)))"
    unfolding b using pend_stable11 by (simp add: mkPos_def)
  have f: "fillDeck (\<lambda>k. R) (take 4 (drop 11 pend_draws)) = take 5 (drop 11 pend_draws)"
    by (simp add: pend_draws_def fillDeck_four)
  show ?thesis
    unfolding placeTile_stable [OF g d s] b f
    by (simp add: pend_store10_def pend_store11_def)
qed

lemma pend_stable12:
  "list_all (\<lambda>q. resolve pend_board12 q = None) (superblockPositions 0 1)"
  unfolding superblockPositions_def concat.simps list.map append.simps list.pred_inject
  by (simp add: resolve_def pend_board12_def rule_defs accessor_defs)

lemma pend_place12:
  "placeTile (\<lambda>k. R) pend_store11 (mkPos 0 1 2 1) = Inr (True, pend_store12)"
proof -
  have g: "getCell (grid pend_store11) (mkPos 0 1 2 1) = None"
    by (simp add: pend_store11_def pend_board11_def accessor_defs)
  have d: "deck pend_store11 = R # take 4 (drop 12 pend_draws)"
    by (simp add: pend_store11_def pend_draws_def)
  have b: "setCell (grid pend_store11) (mkPos 0 1 2 1) (Some (categoryToDefaultTile R)) = pend_board12"
    by (simp add: pend_store11_def pend_board11_def pend_board12_def setCell_def valid_pos_def mkPos_def
        emptyRow_def emptyBlock_def)
  have s: "list_all (\<lambda>q. resolve (setCell (grid pend_store11) (mkPos 0 1 2 1) (Some (categoryToDefaultTile R))) q = None)
      (superblockPositions (superblockRow (mkPos 0 1 2 1)) (superblockCol (mkPos 0 1 2 1)))"
    unfolding b using pend_stable12 by (simp add: mkPos_def)
  have f: "fillDeck (\<lambda>k. R) (take 4 (drop 12 pend_draws)) = take 5 (drop 12 pend_draws)"
    by (simp add: pend_draws_def fillDeck_four)
  show ?thesis
    unfolding placeTile_stable [OF g d s] b f
    by (simp add: pend_store11_def pend_store12_def)
qed

lemma pend_stable13:
  "list_all (\<lambda>q. resolve pend_board13 q = None) (superblockPositions 0 1)"
  unfolding superblockPositions_def concat.simps list.map append.simps list.pred_inject
  by (simp add: resolve_def pend_board13_def rule_defs accessor_defs)

lemma pend_place13:
  "placeTile (\<lambda>k. R) pend_store12 (mkPos 0 1 2 2) = Inr (True, pend_store13)"
proof -
  have g: "getCell (grid pend_store12) (mkPos 0 1 2 2) = None"
    by (simp add: pend_store12_def pend_board12_def accessor_defs)
  have d: "deck pend_store12 = R # take 4 (drop 13 pend_draws)"
    by (simp add: pend_store12_def pend_draws_def)
  have b: "setCell (grid pend_store12) (mkPos 0 1 2 2) (Some (categoryToDefaultTile R)) = pend_board13"
    by (simp add: pend_store12_def pend_board12_def pend_board13_def setCell_def valid_pos_def mkPos_def
        emptyRow_def emptyBlock_def)
  have s: "list_all (\<lambda>q. resolve (setCell (grid pend_store12) (mkPos 0 1 2 2) (Some (categoryToDefaultTile R))) q = None)
      (superblockPositions (superblockRow (mkPos 0 1 2 2)) (superblockCol (mkPos 0 1 2 2)))"
    unfolding b using pend_stable13 by (simp add: mkPos_def)
  have f: "fillDeck (\<lambda>k. R) (take 4 (drop 13 pend_draws)) = take 5 (drop 13 pend_draws)"
    by (simp add: pend_draws_def fillDeck_four)
  show ?thesis
    unfolding placeTile_stable [OF g d s] b f
    by (simp add: pend_store12_def pend_store13_def)
qed

lemma pend_pending:
  "getCell pend_board13 (mkPos 0 0 0 0) = Some shop \<and> resolve pend_board13 (mkPos 0 0 0 0) = Some restaurant"
  by (simp add: resolve_def pend_board13_def rule_defs accessor_defs)

lemma pend_create: "createGameStore (\<lambda>k. [C, C, R, R, R] ! k) = pend_store0"
  by (simp add: createGameStore_def init_def fillDeck_def fillDeck_loop.simps DECK_SIZE_def
      pend_store0_def pend_board0_def pend_draws_def emptyRow_def emptyBlock_def numeral_eq_Suc)

lemma valid_mkPos:
  "valid_pos (mkPos a b c d) \<longleftrightarrow> 0 \<le> a \<and> a < 3 \<and> 0 \<le> b \<and> b < 3 \<and> 0 \<le> c \<and> c < 3 \<and> 0 \<le> d \<and> d < 3"
  by (simp add: valid_pos_def mkPos_def)

lemma pend_reachable12: "reachable pend_store12"
proof -
  have "reachable pend_store0" using reachable_create [of "\<lambda>k. [C, C, R, R, R] ! k"] by (simp add: pend_create)
  then have "reachable pend_store1" by (rule reachable_place [OF _ _ pend_place1]) (simp add: valid_mkPos)
  then have "reachable pend_store2" by (rule reachable_place [OF _ _ pend_place2]) (simp add: valid_mkPos)
  then have "reachable pend_store3" by (rule reachable_place [OF _ _ pend_place3]) (simp add: valid_mkPos)
  then have "reachable pend_store4" by (rule reachable_place [OF _ _ pend_place4]) (simp add: valid_mkPos)
  then have "reachable pend_store5" by (rule reachable_place [OF _ _ pend_place5]) (simp add: valid_mkPos)
  then have "reachable pend_store6" by (rule reachable_place [OF _ _ pend_place6]) (simp add: valid_mkPos)
  then have "reachable pend_store7" by (rule reachable_place [OF _ _ pend_place7]) (simp add: valid_mkPos)
  then have "reachable pend_store8" by (rule reachable_place [OF _ _ pend_place8]) (simp add: valid_mkPos)
  then have "reachable pend_store9" by (rule reachable_place [OF _ _ pend_place9]) (simp add: valid_mkPos)
  then have "reachable pend_store10" by (rule reachable_place [OF _ _ pend_place10]) (simp add: valid_mkPos)
  then have "reachable pend_store11" by (rule reachable_place [OF _ _ pend_place11]) (simp add: valid_mkPos)
  then show "reachable pend_store12" by (rule reachable_place [OF _ _ pend_place12]) (simp add: valid_mkPos)
qed

text \<open>
  C1 (what the code does at a failing input). The store \<open>pend_store12\<close> is reachable; placing
  the next tile, a house, at cell (2,2) of superblock (0,1) returns true and changes no tile;
  in the store it leaves, the shop at cell (0,0) of superblock (0,0) has a shop next to it and
  ten residential tiles in its own and the adjacent superblocks, so the resolver selects
  Restaurant for it: the board is not at a fixed point of the resolver.
\<close>

theorem placement_leaves_upgrade_pending:
  "reachable pend_store12
   \<and> placeTile (\<lambda>k. R) pend_store12 (mkPos 0 1 2 2) = Inr (True, pend_store13)
   \<and> getCell (grid pend_store13) (mkPos 0 0 0 0) = Some shop
   \<and> resolve (grid pend_store13) (mkPos 0 0 0 0) = Some restaurant"
  using pend_reachable12 pend_place13 pend_pending by (simp add: pend_store13_def)

section \<open>Cascades in which every cell follows its own ladder\<close>

lemma cellsum_setCell:
  assumes "grid_wf g" "getCell g p = Some t"
  shows "cellsum h (setCell g p (Some t')) + h p t = cellsum h g + h p t'"
proof -
  let ?V = "{q. valid_pos q}"
  let ?f = "\<lambda>g q. case getCell g q of None \<Rightarrow> 0 | Some t \<Rightarrow> h q t"
  have v: "valid_pos p" using assms(2) by (rule getCell_Some_valid)
  then have pV: "p \<in> ?V" by simp
  have rest: "sum (?f (setCell g p (Some t'))) (?V - {p}) = sum (?f g) (?V - {p})"
    by (rule sum.cong) (simp_all add: getCell_setCell [OF assms(1) v])
  have "cellsum h (setCell g p (Some t')) = h p t' + sum (?f g) (?V - {p})"
    unfolding cellsum_def sum.remove [OF valid_pos_finite pV] rest
    by (simp add: getCell_setCell [OF assms(1) v])
  moreover have "cellsum h g = h p t + sum (?f g) (?V - {p})"
    unfolding cellsum_def sum.remove [OF valid_pos_finite pV] using assms(2) by simp
  ultimately show ?thesis by (simp add: ac_simps)
qed

lemma cellsum_zero:
  assumes "\<And>q t. getCell g q = Some t \<Longrightarrow> h q t = 0"
  shows "cellsum h g = 0"
  unfolding cellsum_def
  by (rule sum.neutral) (auto split: option.splits simp: assms)

text \<open>
  Suppose that on a family \<open>F\<close> of boards, closed under the changes of the resolver, the
  change selected for a cell depends only on the position and the kind of its tile
  (\<open>nxt\<close>), and that each change lowers a rank. Then from any state whose queue holds
  every cell that still has a change to make, the loop returns; every tile has then run
  through its changes to the end (\<open>fin\<close>), and the score has grown by the points of all
  of them (\<open>gain\<close>).
\<close>

lemma cascade_settles:
  fixes nxt :: "Position \<Rightarrow> TileType \<Rightarrow> TileType option"
    and rk :: "Position \<Rightarrow> TileType \<Rightarrow> nat"
    and fin :: "Position \<Rightarrow> TileType \<Rightarrow> TileType"
    and gain :: "Position \<Rightarrow> TileType \<Rightarrow> int"
  assumes F_wf: "\<And>g. F g \<Longrightarrow> grid_wf g"
    and F_resolve: "\<And>g q t. F g \<Longrightarrow> getCell g q = Some t \<Longrightarrow> resolve g q = nxt q t"
    and F_step: "\<And>g q t t'. F g \<Longrightarrow> getCell g q = Some t \<Longrightarrow> nxt q t = Some t'
                  \<Longrightarrow> F (setCell g q (Some t'))"
    and rk: "\<And>q t t'. nxt q t = Some t' \<Longrightarrow> rk q t' < rk q t"
    and fin: "\<And>q t. fin q t = (case nxt q t of None \<Rightarrow> t | Some t' \<Rightarrow> fin q t')"
    and gain: "\<And>q t. gain q t = (case nxt q t of None \<Rightarrow> 0 | Some t' \<Rightarrow> points t' + gain q t')"
    and F0: "F (rgrid st)"
    and pending: "\<And>q t. getCell (rgrid st) q = Some t \<Longrightarrow> nxt q t \<noteq> None
                  \<Longrightarrow> q \<in> set (queue st) \<and> q \<notin> visited st"
    and bound: "upgradeCount st + cellsum rk (rgrid st) < MAX_UPGRADES"
  shows "\<exists>st'. rebuild_loop st = Inr st' \<and> F (rgrid st')
           \<and> (\<forall>q. getCell (rgrid st') q = map_option (fin q) (getCell (rgrid st) q))
           \<and> rscore st' = rscore st + cellsum gain (rgrid st)"
proof -
  define J where "J s \<longleftrightarrow>
      F (rgrid s)
      \<and> (\<forall>q t. getCell (rgrid s) q = Some t \<longrightarrow> nxt q t \<noteq> None \<longrightarrow> q \<in> set (queue s) \<and> q \<notin> visited s)
      \<and> (\<forall>q. map_option (fin q) (getCell (rgrid s) q) = map_option (fin q) (getCell (rgrid st) q))
      \<and> rscore s + cellsum gain (rgrid s) = rscore st + cellsum gain (rgrid st)
      \<and> upgradeCount s + cellsum rk (rgrid s) \<le> upgradeCount st + cellsum rk (rgrid st)" for s :: Rebuild
  have J0: "J st" unfolding J_def using F0 pending by auto
  have Jstep: "upgradeCount s < MAX_UPGRADES \<and> J (rebuild_step s)" if j: "J s" and ne: "queue s \<noteq> []" for s
  proof
    from j bound show "upgradeCount s < MAX_UPGRADES" unfolding J_def by linarith
    from ne obtain p rest where q: "queue s = p # rest" by (cases "queue s") auto
    from j have Fs: "F (rgrid s)"
      and pend: "\<And>q t. getCell (rgrid s) q = Some t \<Longrightarrow> nxt q t \<noteq> None \<Longrightarrow> q \<in> set (queue s) \<and> q \<notin> visited s"
      and finq: "\<And>q. map_option (fin q) (getCell (rgrid s) q) = map_option (fin q) (getCell (rgrid st) q)"
      and sc: "rscore s + cellsum gain (rgrid s) = rscore st + cellsum gain (rgrid st)"
      and cnt: "upgradeCount s + cellsum rk (rgrid s) \<le> upgradeCount st + cellsum rk (rgrid st)"
      unfolding J_def by blast+
    show "J (rebuild_step s)"
    proof (cases "p \<in> visited s")
      case True
      then have step: "rebuild_step s = s\<lparr>queue := rest\<rparr>" using q by (simp add: rebuild_step_resolve)
      show ?thesis
        unfolding J_def step using Fs finq sc cnt pend True q by (auto; fastforce)
    next
      case nv: False
      show ?thesis
      proof (cases "resolve (rgrid s) p")
        case None
        then have step: "rebuild_step s = s\<lparr>queue := rest, visited := insert p (visited s)\<rparr>"
          using q nv by (simp add: rebuild_step_resolve)
        have stable: "nxt p t = None" if "getCell (rgrid s) p = Some t" for t
          using F_resolve [OF Fs that] None by simp
        have "q' \<in> set rest \<and> q' \<notin> insert p (visited s)"
          if "getCell (rgrid s) q' = Some t" "nxt q' t \<noteq> None" for q' t
        proof -
          from pend [OF that] have a: "q' \<in> set (queue s)" "q' \<notin> visited s" by simp_all
          have "q' \<noteq> p" using stable that by auto
          with a q show ?thesis by simp
        qed
        then show ?thesis
          unfolding J_def step using Fs finq sc cnt by simp
      next
        case (Some up)
        then obtain t where t: "getCell (rgrid s) p = Some t"
          using resolve_Some_occupied by blast
        have n: "nxt p t = Some up" using F_resolve [OF Fs t] Some by simp
        have v: "valid_pos p" using t by (rule getCell_Some_valid)
        have wf: "grid_wf (rgrid s)" using Fs by (rule F_wf)
        let ?g' = "setCell (rgrid s) p (Some up)"
        have step: "rebuild_step s =
            \<lparr>rgrid = ?g', rscore = rscore s + points up, queue = rest @ requeue ?g' p,
             visited = {}, upgradeCount = upgradeCount s + 1\<rparr>"
          using q nv Some by (simp add: rebuild_step_resolve)
        have gc: "getCell ?g' q' = (if q' = p then Some up else getCell (rgrid s) q')" for q'
          by (rule getCell_setCell [OF wf v])
        have F': "F ?g'" by (rule F_step [OF Fs t n])
        have pend': "q' \<in> set (rest @ requeue ?g' p)"
          if "getCell ?g' q' = Some t'" "nxt q' t' \<noteq> None" for q' t'
        proof (cases "q' = p")
          case True
          then show ?thesis by (simp add: requeue_def)
        next
          case False
          with that gc have "getCell (rgrid s) q' = Some t'" by simp
          from pend [OF this that(2)] False q show ?thesis by simp
        qed
        have fin_up: "fin p up = fin p t" using fin [of p t] n by simp
        have fin': "map_option (fin q') (getCell ?g' q') = map_option (fin q') (getCell (rgrid st) q')" for q'
        proof (cases "q' = p")
          case True
          then show ?thesis using finq [of p] t fin_up by (simp add: gc)
        next
          case False
          then show ?thesis using finq [of q'] by (simp add: gc)
        qed
        have gain_t: "gain p t = points up + gain p up" using gain [of p t] n by simp
        have "cellsum gain ?g' + gain p t = cellsum gain (rgrid s) + gain p up"
          by (rule cellsum_setCell [OF wf t])
        then have sc': "rscore s + points up + cellsum gain ?g' = rscore st + cellsum gain (rgrid st)"
          using sc gain_t by simp
        have "cellsum rk ?g' + rk p t = cellsum rk (rgrid s) + rk p up"
          by (rule cellsum_setCell [OF wf t])
        then have cnt': "upgradeCount s + 1 + cellsum rk ?g' \<le> upgradeCount st + cellsum rk (rgrid st)"
          using cnt rk [OF n] by simp
        show ?thesis
          unfolding J_def step using F' pend' fin' sc' cnt' by simp
      qed
    qed
  qed
  from rebuild_loop_returns [of J st, OF J0 Jstep]
  obtain st' where l: "rebuild_loop st = Inr st'" and j: "J st'" and e: "queue st' = []"
    by blast
  have settled: "nxt q t = None" if "getCell (rgrid st') q = Some t" for q t
    using j that e unfolding J_def by fastforce
  have fin_id: "fin q t = t" if "getCell (rgrid st') q = Some t" for q t
    using fin [of q t] settled [OF that] by simp
  have gain_0: "gain q t = 0" if "getCell (rgrid st') q = Some t" for q t
    using gain [of q t] settled [OF that] by simp
  have "getCell (rgrid st') q = map_option (fin q) (getCell (rgrid st) q)" for q
  proof -
    have "map_option (fin q) (getCell (rgrid st') q) = getCell (rgrid st') q"
      using fin_id [of q] by (cases "getCell (rgrid st') q") simp_all
    then show ?thesis using j unfolding J_def by metis
  qed
  moreover have "rscore st' = rscore st + cellsum gain (rgrid st)"
    using j cellsum_zero [of "rgrid st'" gain, OF gain_0] unfolding J_def by simp
  moreover have "F (rgrid st')" using j unfolding J_def by simp
  ultimately show ?thesis using l by blast
qed

section \<open>Counting and neighbourhood facts\<close>

lemma getAdjacentCells_neighbours:
  "map fst (getAdjacentCells g pos) = neighbours pos"
  "adjacentTiles g pos = map (getCell g) (neighbours pos)"
  by (simp_all add: neighbours_def adjacentTiles_def getAdjacentCells_def directions_def Let_def)

lemma neighbours_iff:
  "q \<in> set (neighbours pos) \<longleftrightarrow>
     superblockRow q = superblockRow pos \<and> superblockCol q = superblockCol pos
     \<and> 0 \<le> cellRow q \<and> cellRow q < 3 \<and> 0 \<le> cellCol q \<and> cellCol q < 3
     \<and> ((cellCol q = cellCol pos \<and> (cellRow q = cellRow pos - 1 \<or> cellRow q = cellRow pos + 1))
        \<or> (cellRow q = cellRow pos \<and> (cellCol q = cellCol pos - 1 \<or> cellCol q = cellCol pos + 1)))"
  by (auto simp: neighbours_def getAdjacentCells_def directions_def Let_def pos_eq_iff [of q])

lemma not_own_neighbour: "pos \<notin> set (neighbours pos)"
  by (simp add: neighbours_iff)

lemma superblockPositions_iff:
  "q \<in> set (superblockPositions sbRow sbCol) \<longleftrightarrow>
     superblockRow q = sbRow \<and> superblockCol q = sbCol
     \<and> 0 \<le> cellRow q \<and> cellRow q < 3 \<and> 0 \<le> cellCol q \<and> cellCol q < 3"
proof -
  have m: "q \<in> set (superblockPositions sbRow sbCol) \<longleftrightarrow>
      (\<exists>a \<in> {0, 1, 2}. \<exists>b \<in> {0, 1, 2}.
         q = \<lparr>superblockRow = sbRow, superblockCol = sbCol, cellRow = a, cellCol = b\<rparr>)"
    unfolding superblockPositions_def by (simp add: image_iff)
  have e: "q = \<lparr>superblockRow = sbRow, superblockCol = sbCol, cellRow = a, cellCol = b\<rparr>
      \<longleftrightarrow> superblockRow q = sbRow \<and> superblockCol q = sbCol \<and> cellRow q = a \<and> cellCol q = b" for a b
    by (simp add: pos_eq_iff [of q])
  have r: "0 \<le> x \<and> x < 3 \<longleftrightarrow> x \<in> {0, 1, 2}" for x :: int by auto
  show ?thesis
    unfolding m e by (metis r)
qed

lemma distinct_superblockPositions: "distinct (superblockPositions sbRow sbCol)"
  by (simp add: superblockPositions_def)

lemma countInSuperblock_card:
  "countInSuperblock g sbRow sbCol category =
     card {q \<in> set (superblockPositions sbRow sbCol). hasCategory category (getCell g q)}"
proof -
  have "{q \<in> set (superblockPositions sbRow sbCol). hasCategory category (getCell g q)}
        = {q. hasCategory category (getCell g q)} \<inter> set (superblockPositions sbRow sbCol)"
    by auto
  then show ?thesis
    by (simp add: countInSuperblock_def distinct_length_filter [OF distinct_superblockPositions])
qed

section \<open>The resolver on residential tiles\<close>

lemma resolve_house:
  assumes "getCell g pos = Some house"
  shows "resolve g pos =
    (if allMet (Some (residential_tier2_residential pos g)) then Some tier2_residential
     else if allMet (Some (residential_villa pos g)) then Some villa
     else if allMet (Some (residential_hotel pos g)) then Some hotel
     else if allMet (Some (residential_slums pos g)) then Some slums
     else None)"
proof -
  have "\<not> allMet (Some (residential_highrise pos g))"
    using assms by (simp add: allMet_def residential_highrise_def)
  then show ?thesis
    using assms
    by (simp add: resolve_def getUpgradesForTile_def residentialUpgrades_def upgradePriority_def)
qed

lemma resolve_slums:
  assumes "getCell g pos = Some slums"
  shows "resolve g pos =
    (if allMet (Some (residential_tier2_residential pos g)) then Some tier2_residential
     else if allMet (Some (slumsDowngrade_house pos g)) then Some house
     else None)"
proof -
  have "\<not> allMet (Some (residential_highrise pos g))" "\<not> allMet (Some (residential_villa pos g))"
    "\<not> allMet (Some (residential_hotel pos g))"
    using assms
    by (simp_all add: allMet_def residential_highrise_def residential_villa_def residential_hotel_def)
  then show ?thesis
    using assms
    by (simp add: resolve_def getUpgradesForTile_def residentialUpgrades_def slumsDowngrade_def
        upgradePriority_def)
qed

lemma resolve_villa:
  assumes "getCell g pos = Some villa"
  shows "resolve g pos = None"
proof -
  have "\<not> allMet (Some (residential_highrise pos g))" "\<not> allMet (Some (residential_villa pos g))"
    "\<not> allMet (Some (residential_hotel pos g))" "\<not> allMet (Some (residential_slums pos g))"
    "\<not> allMet (Some (residential_tier2_residential pos g))"
    using assms
    by (simp_all add: allMet_def residential_highrise_def residential_villa_def residential_hotel_def
        residential_slums_def residential_tier2_residential_def)
  then show ?thesis
    using assms
    by (simp add: resolve_def getUpgradesForTile_def residentialUpgrades_def upgradePriority_def)
qed

lemma placeTile_placed:
  assumes "getCell (grid s) pos = None" "deck s = category # rest"
    and "rebuild_loop (rebuild_start s pos (categoryToDefaultTile category)) = Inr st'"
  shows "placeTile rnd s pos =
     Inr (True, s\<lparr>deck := fillDeck rnd rest, grid := rgrid st', score := rscore st', turn := turn s + 1\<rparr>)"
  using assms by (simp add: placeTile_def runRebuildPhase_def rebuild_start_def Let_def)

lemma fillDeck_Cons: "\<exists>d'. fillDeck rnd (x # d) = x # d'"
  unfolding fillDeck_def by (rule fillDeck_loop_Cons)

section \<open>The slums round trip\<close>

lemma cellsum_const:
  fixes h :: "Position \<Rightarrow> TileType \<Rightarrow> 'a::semiring_1"
  assumes "finite A"
    and inA: "\<And>q. q \<in> A \<Longrightarrow> \<exists>t. getCell g q = Some t \<and> h q t = c"
    and outA: "\<And>q t. q \<notin> A \<Longrightarrow> getCell g q = Some t \<Longrightarrow> h q t = 0"
  shows "cellsum h g = of_nat (card A) * c"
proof -
  let ?V = "{q. valid_pos q}"
  have sub: "A \<subseteq> ?V" using inA getCell_Some_valid by blast
  have "cellsum h g = (\<Sum>q\<in>?V. if q \<in> A then c else 0)"
    unfolding cellsum_def
  proof (rule sum.cong)
    fix q assume "q \<in> ?V"
    show "(case getCell g q of None \<Rightarrow> 0 | Some t \<Rightarrow> h q t) = (if q \<in> A then c else 0)"
    proof (cases "q \<in> A")
      case True
      with inA [OF True] show ?thesis by auto
    next
      case False
      with outA [OF False] show ?thesis by (cases "getCell g q") simp_all
    qed
  qed simp
  also have "\<dots> = sum (\<lambda>q. c) (?V \<inter> A)"
    by (rule sum.inter_restrict [symmetric]) (rule valid_pos_finite)
  also have "?V \<inter> A = A" using sub by blast
  finally show ?thesis by simp
qed

lemma no_category_count:
  assumes "\<And>q. \<not> hasCategory category (getCell g q)"
  shows "countInSuperblock g sbRow sbCol category = 0"
  using assms by (simp add: countInSuperblock_def)

lemma only_category_count:
  assumes "A \<subseteq> set (superblockPositions sbRow sbCol)"
    and "\<And>q. hasCategory category (getCell g q) \<longleftrightarrow> q \<in> A"
  shows "countInSuperblock g sbRow sbCol category = card A"
proof -
  have "{q \<in> set (superblockPositions sbRow sbCol). hasCategory category (getCell g q)} = A"
    using assms by auto
  then show ?thesis by (simp add: countInSuperblock_card)
qed

lemma list_ex_adjacentTiles:
  "list_ex P (adjacentTiles g pos) \<longleftrightarrow> (\<exists>q \<in> set (neighbours pos). P (getCell g q))"
  by (simp add: getAdjacentCells_neighbours list_ex_iff)

text \<open>
  Four houses alone on the board, all in one superblock, with the nine cells of that
  superblock queued: the loop returns with the four turned into slums and the score
  lowered by 24.
\<close>

lemma slums_phase:
  assumes H: "H \<subseteq> set (superblockPositions sbRow sbCol)" "card H = 4"
    and wf: "grid_wf g"
    and board: "\<And>q. getCell g q = (if q \<in> H then Some house else None)"
    and st: "rgrid st = g" "queue st = superblockPositions sbRow sbCol" "visited st = {}"
      "upgradeCount st = 0"
  shows "\<exists>st'. rebuild_loop st = Inr st' \<and> grid_wf (rgrid st')
           \<and> (\<forall>q. getCell (rgrid st') q = (if q \<in> H then Some slums else None))
           \<and> rscore st' = rscore st - 24"
proof -
  define F where "F g' \<longleftrightarrow> grid_wf g'
      \<and> (\<forall>q. q \<in> H \<longrightarrow> getCell g' q = Some house \<or> getCell g' q = Some slums)
      \<and> (\<forall>q. q \<notin> H \<longrightarrow> getCell g' q = None)" for g'
  define nxt :: "Position \<Rightarrow> TileType \<Rightarrow> TileType option"
    where "nxt q t = (if t = house then Some slums else None)" for q t
  define rk :: "Position \<Rightarrow> TileType \<Rightarrow> nat" where "rk q t = (if t = house then 1 else 0)" for q t
  define fin :: "Position \<Rightarrow> TileType \<Rightarrow> TileType" where "fin q t = (if t = house then slums else t)" for q t
  define gain :: "Position \<Rightarrow> TileType \<Rightarrow> int" where "gain q t = (if t = house then - 6 else 0)" for q t
  have finH: "finite H" using H(1) finite_subset by blast
  have inH: "superblockRow q = sbRow \<and> superblockCol q = sbCol" if "q \<in> H" for q
    using that H(1) superblockPositions_iff by blast
  have F_resolve: "resolve g' q = nxt q t" if f: "F g'" and c: "getCell g' q = Some t" for g' q t
  proof -
    have qH: "q \<in> H" using f c unfolding F_def by (metis option.distinct(1))
    have cat: "hasCategory R (getCell g' q') \<longleftrightarrow> q' \<in> H" "\<not> hasCategory L (getCell g' q')"
      "\<not> hasCategory C (getCell g' q')" "\<not> hasCategory E (getCell g' q')" for q'
      using f unfolding F_def by (cases "q' \<in> H"; auto simp: hasCategory_def)+
    have cnt: "countInSuperblock g' (superblockRow q) (superblockCol q) R = 4"
      "countInSuperblock g' (superblockRow q) (superblockCol q) L = 0"
      "countInSuperblock g' (superblockRow q) (superblockCol q) C = 0"
      "countInSuperblock g' (superblockRow q) (superblockCol q) E = 0"
      using only_category_count [OF H(1), of R g'] cat H(2) inH [OF qH]
      by (simp_all add: no_category_count)
    have adj: "\<not> list_ex (hasCategory L) (adjacentTiles g' q)"
      using cat by (simp add: list_ex_adjacentTiles)
    from f c qH have "t = house \<or> t = slums" unfolding F_def by auto
    then show ?thesis
    proof
      assume t: "t = house"
      show ?thesis
        using c cnt adj unfolding t nxt_def
        by (simp add: resolve_house allMet_def residential_tier2_residential_def residential_villa_def
            residential_hotel_def residential_slums_def)
    next
      assume t: "t = slums"
      show ?thesis
        using c cnt unfolding t nxt_def
        by (simp add: resolve_slums allMet_def residential_tier2_residential_def slumsDowngrade_house_def)
    qed
  qed
  have F_step: "F (setCell g' q (Some t'))" if f: "F g'" and c: "getCell g' q = Some t" and n: "nxt q t = Some t'"
    for g' q t t'
  proof -
    have qH: "q \<in> H" using f c unfolding F_def by (metis option.distinct(1))
    have t': "t' = slums" using n unfolding nxt_def by (simp split: if_splits)
    have v: "valid_pos q" using c by (rule getCell_Some_valid)
    have w: "grid_wf g'" using f unfolding F_def by simp
    show ?thesis
      unfolding F_def using f qH t' unfolding F_def
      by (auto simp: getCell_setCell [OF w v] grid_wf_setCell)
  qed
  have F0: "F (rgrid st)" unfolding F_def st(1) using wf board by simp
  have pending: "q \<in> set (queue st) \<and> q \<notin> visited st" if "getCell (rgrid st) q = Some t" for q t
  proof -
    have "q \<in> H" using that board [of q] unfolding st(1) by (simp split: if_splits)
    then show ?thesis using H(1) st(2,3) by auto
  qed
  have rank: "cellsum rk (rgrid st) = 4"
    using cellsum_const [of H g rk 1] finH H(2) board unfolding st(1) rk_def by simp
  have total: "cellsum gain (rgrid st) = - 24"
    using cellsum_const [of H g gain "- 6"] finH H(2) board unfolding st(1) gain_def by simp
  have "\<exists>st'. rebuild_loop st = Inr st' \<and> F (rgrid st')
           \<and> (\<forall>q. getCell (rgrid st') q = map_option (fin q) (getCell (rgrid st) q))
           \<and> rscore st' = rscore st + cellsum gain (rgrid st)"
  proof (rule cascade_settles [where nxt = nxt and rk = rk])
    show "\<And>g. F g \<Longrightarrow> grid_wf g" unfolding F_def by simp
    show "\<And>g q t. F g \<Longrightarrow> getCell g q = Some t \<Longrightarrow> resolve g q = nxt q t" by (rule F_resolve)
    show "\<And>g q t t'. F g \<Longrightarrow> getCell g q = Some t \<Longrightarrow> nxt q t = Some t' \<Longrightarrow> F (setCell g q (Some t'))"
      by (rule F_step)
    show "\<And>q t t'. nxt q t = Some t' \<Longrightarrow> rk q t' < rk q t"
      unfolding nxt_def rk_def by (simp split: if_splits)
    show "\<And>q t. fin q t = (case nxt q t of None \<Rightarrow> t | Some t' \<Rightarrow> fin q t')"
      unfolding nxt_def fin_def by simp
    show "\<And>q t. gain q t = (case nxt q t of None \<Rightarrow> 0 | Some t' \<Rightarrow> points t' + gain q t')"
      unfolding nxt_def gain_def by (simp add: points_def)
    show "F (rgrid st)" by (rule F0)
    show "\<And>q t. getCell (rgrid st) q = Some t \<Longrightarrow> nxt q t \<noteq> None \<Longrightarrow> q \<in> set (queue st) \<and> q \<notin> visited st"
      using pending by blast
    show "upgradeCount st + cellsum rk (rgrid st) < MAX_UPGRADES"
      unfolding rank st(4) by (simp add: MAX_UPGRADES_def)
  qed
  then obtain st' where l: "rebuild_loop st = Inr st'" and f: "F (rgrid st')"
    and c: "\<And>q. getCell (rgrid st') q = map_option (fin q) (getCell (rgrid st) q)"
    and s: "rscore st' = rscore st + cellsum gain (rgrid st)" by blast
  have "getCell (rgrid st') q = (if q \<in> H then Some slums else None)" for q
    unfolding c st(1) board fin_def by simp
  moreover have "grid_wf (rgrid st')" using f unfolding F_def by simp
  ultimately show ?thesis using l s total by auto
qed

lemma offset_is_self:
  "\<lparr>superblockRow = superblockRow y, superblockCol = superblockCol y,
    cellRow = cellRow y + dr, cellCol = cellCol y + dc\<rparr> = y \<longleftrightarrow> dr = 0 \<and> dc = 0"
  by (simp add: pos_eq_iff [of _ y])

lemma lone_leisure_no_square:
  assumes "\<And>q. hasCategory L (getCell g q) \<longleftrightarrow> q = y"
  shows "\<not> checkLeisureSquare y g"
  unfolding checkLeisureSquare_def squareOffsets_def
  by (simp add: assms offset_is_self)

text \<open>
  Four slums and one yard alone on the board, all in one superblock, with the nine cells
  of that superblock queued: the loop returns with every slum turned back into a house,
  and a house that is not an edge cell and has the yard as a neighbour turned on into a
  villa; the score grows by 18 for each such villa and by nothing else.
\<close>

lemma revert_phase:
  assumes H: "H \<subseteq> set (superblockPositions sbRow sbCol)" "card H = 4"
    and y: "y \<in> set (superblockPositions sbRow sbCol)" "y \<notin> H"
    and wf: "grid_wf g"
    and board: "\<And>q. getCell g q = (if q = y then Some yard else if q \<in> H then Some slums else None)"
    and st: "rgrid st = g" "queue st = superblockPositions sbRow sbCol" "visited st = {}"
      "upgradeCount st = 0"
  shows "\<exists>st'. rebuild_loop st = Inr st' \<and> grid_wf (rgrid st')
           \<and> (\<forall>q. getCell (rgrid st') q =
                 (if q = y then Some yard
                  else if q \<in> H then (if \<not> isNearRoad q \<and> y \<in> set (neighbours q) then Some villa else Some house)
                  else None))
           \<and> rscore st' = rscore st + 18 * int (card {q \<in> H. \<not> isNearRoad q \<and> y \<in> set (neighbours q)})"
proof -
  define V where "V q \<longleftrightarrow> \<not> isNearRoad q \<and> y \<in> set (neighbours q)" for q
  define F where "F g' \<longleftrightarrow> grid_wf g' \<and> getCell g' y = Some yard
      \<and> (\<forall>q. q \<in> H \<longrightarrow> getCell g' q = Some slums \<or> getCell g' q = Some house \<or> getCell g' q = Some villa)
      \<and> (\<forall>q. q \<notin> H \<and> q \<noteq> y \<longrightarrow> getCell g' q = None)" for g'
  define nxt :: "Position \<Rightarrow> TileType \<Rightarrow> TileType option"
    where "nxt q t = (if t = slums then Some house else if t = house \<and> V q then Some villa else None)" for q t
  define rk :: "Position \<Rightarrow> TileType \<Rightarrow> nat"
    where "rk q t = (if t = slums then 2 else if t = house then 1 else 0)" for q t
  define fin :: "Position \<Rightarrow> TileType \<Rightarrow> TileType"
    where "fin q t = (if t = slums \<or> t = house then (if V q then villa else house) else t)" for q t
  define gain :: "Position \<Rightarrow> TileType \<Rightarrow> int"
    where "gain q t = (if (t = slums \<or> t = house) \<and> V q then 18 else 0)" for q t
  have finH: "finite H" using H(1) finite_subset by blast
  have inB: "superblockRow q = sbRow \<and> superblockCol q = sbCol" if "q \<in> H \<or> q = y" for q
    using that H(1) y(1) superblockPositions_iff by blast
  have F_resolve: "resolve g' q = nxt q t" if f: "F g'" and c: "getCell g' q = Some t" for g' q t
  proof -
    have qB: "q \<in> H \<or> q = y" using f c unfolding F_def by (metis option.distinct(1))
    have cat: "hasCategory R (getCell g' q') \<longleftrightarrow> q' \<in> H" "hasCategory L (getCell g' q') \<longleftrightarrow> q' = y"
      "\<not> hasCategory C (getCell g' q')" "\<not> hasCategory E (getCell g' q')"
      "getCell g' q' \<noteq> Some shopping_center" for q'
      using f y(2) unfolding F_def by (cases "q' \<in> H"; cases "q' = y"; auto simp: hasCategory_def)+
    have sub: "{y} \<subseteq> set (superblockPositions sbRow sbCol)" using y(1) by simp
    have cnt: "countInSuperblock g' (superblockRow q) (superblockCol q) R = 4"
      "countInSuperblock g' (superblockRow q) (superblockCol q) L = 1"
      "countInSuperblock g' (superblockRow q) (superblockCol q) C = 0"
      "countInSuperblock g' (superblockRow q) (superblockCol q) E = 0"
      using only_category_count [OF H(1), of R g'] only_category_count [OF sub, of L g']
        cat H(2) inB [OF qB]
      by (simp_all add: no_category_count)
    have adjL: "list_ex (hasCategory L) (adjacentTiles g' q) \<longleftrightarrow> y \<in> set (neighbours q)"
      using cat by (simp add: list_ex_adjacentTiles)
    show ?thesis
    proof (cases "q = y")
      case True
      then have t: "t = yard" using f c unfolding F_def by simp
      have c': "getCell g' y = Some yard" using f unfolding F_def by simp
      have nb: "filter (hasCategory L) (adjacentTiles g' y) = []"
        using cat(2) not_own_neighbour [of y]
        by (auto simp: getAdjacentCells_neighbours filter_empty_conv)
      have sq: "\<not> checkLeisureSquare y g'"
        by (rule lone_leisure_no_square) (rule cat(2))
      have "resolve g' y = None"
        using c' cnt nb sq cat True
        by (simp add: resolve_yard allMet_def leisure_park_def leisure_plaza_def leisure_cinema_def
            leisure_sports_def leisure_playground_def list_ex_adjacentTiles hasCategory_def)
      then show ?thesis unfolding True t nxt_def by simp
    next
      case False
      then have qH: "q \<in> H" using qB by simp
      from f c qH have "t = slums \<or> t = house \<or> t = villa" unfolding F_def by auto
      then consider (s) "t = slums" | (h) "t = house" | (v) "t = villa" by blast
      then show ?thesis
      proof cases
        case s
        show ?thesis
          using c cnt unfolding s nxt_def
          by (simp add: resolve_slums allMet_def residential_tier2_residential_def slumsDowngrade_house_def)
      next
        case h
        show ?thesis
          using c cnt adjL unfolding h nxt_def V_def
          by (simp add: resolve_house allMet_def residential_tier2_residential_def residential_villa_def
              residential_hotel_def residential_slums_def)
      next
        case v
        show ?thesis using c unfolding v nxt_def by (simp add: resolve_villa)
      qed
    qed
  qed
  have F_step: "F (setCell g' q (Some t'))" if f: "F g'" and c: "getCell g' q = Some t" and n: "nxt q t = Some t'"
    for g' q t t'
  proof -
    have "t \<noteq> yard" using n unfolding nxt_def by (auto split: if_splits)
    then have "q \<noteq> y" using f c unfolding F_def by auto
    then have qH: "q \<in> H" using f c unfolding F_def by (metis option.distinct(1))
    have t': "t' = house \<or> t' = villa" using n unfolding nxt_def by (auto split: if_splits)
    have v: "valid_pos q" using c by (rule getCell_Some_valid)
    have w: "grid_wf g'" using f unfolding F_def by simp
    show ?thesis
      unfolding F_def using f qH t' \<open>q \<noteq> y\<close> unfolding F_def
      by (auto simp: getCell_setCell [OF w v] grid_wf_setCell)
  qed
  have F0: "F (rgrid st)" unfolding F_def st(1) using wf board y(2) by simp
  have pending: "q \<in> set (queue st) \<and> q \<notin> visited st" if "getCell (rgrid st) q = Some t" for q t
  proof -
    have "q \<in> H \<or> q = y" using that board [of q] unfolding st(1) by (simp split: if_splits)
    then show ?thesis using H(1) y(1) st(2,3) by auto
  qed
  have rank: "cellsum rk (rgrid st) = 8"
  proof -
    have "cellsum rk g = of_nat (card H) * 2"
    proof (rule cellsum_const)
      show "finite H" by (rule finH)
      show "\<exists>t. getCell g q = Some t \<and> rk q t = 2" if "q \<in> H" for q
        using that y(2) board [of q] unfolding rk_def by auto
      show "rk q t = 0" if "q \<notin> H" "getCell g q = Some t" for q t
        using that board [of q] unfolding rk_def by (auto split: if_splits)
    qed
    then show ?thesis unfolding st(1) H(2) by simp
  qed
  have total: "cellsum gain (rgrid st) = 18 * int (card {q \<in> H. V q})"
  proof -
    have "cellsum gain g = of_nat (card {q \<in> H. V q}) * 18"
    proof (rule cellsum_const)
      show "finite {q \<in> H. V q}" using finH by simp
      show "\<exists>t. getCell g q = Some t \<and> gain q t = 18" if "q \<in> {q \<in> H. V q}" for q
        using that y(2) board [of q] unfolding gain_def by auto
      show "gain q t = 0" if "q \<notin> {q \<in> H. V q}" "getCell g q = Some t" for q t
        using that board [of q] unfolding gain_def by (auto split: if_splits)
    qed
    then show ?thesis unfolding st(1) by simp
  qed
  have "\<exists>st'. rebuild_loop st = Inr st' \<and> F (rgrid st')
           \<and> (\<forall>q. getCell (rgrid st') q = map_option (fin q) (getCell (rgrid st) q))
           \<and> rscore st' = rscore st + cellsum gain (rgrid st)"
  proof (rule cascade_settles [where nxt = nxt and rk = rk])
    show "\<And>g. F g \<Longrightarrow> grid_wf g" unfolding F_def by simp
    show "\<And>g q t. F g \<Longrightarrow> getCell g q = Some t \<Longrightarrow> resolve g q = nxt q t" by (rule F_resolve)
    show "\<And>g q t t'. F g \<Longrightarrow> getCell g q = Some t \<Longrightarrow> nxt q t = Some t' \<Longrightarrow> F (setCell g q (Some t'))"
      by (rule F_step)
    show "\<And>q t t'. nxt q t = Some t' \<Longrightarrow> rk q t' < rk q t"
      unfolding nxt_def rk_def by (auto split: if_splits)
    show "\<And>q t. fin q t = (case nxt q t of None \<Rightarrow> t | Some t' \<Rightarrow> fin q t')"
      unfolding nxt_def fin_def by simp
    show "\<And>q t. gain q t = (case nxt q t of None \<Rightarrow> 0 | Some t' \<Rightarrow> points t' + gain q t')"
      unfolding nxt_def gain_def by (simp add: points_def)
    show "F (rgrid st)" by (rule F0)
    show "\<And>q t. getCell (rgrid st) q = Some t \<Longrightarrow> nxt q t \<noteq> None \<Longrightarrow> q \<in> set (queue st) \<and> q \<notin> visited st"
      using pending by blast
    show "upgradeCount st + cellsum rk (rgrid st) < MAX_UPGRADES"
      unfolding rank st(4) by (simp add: MAX_UPGRADES_def)
  qed
  then obtain st' where l: "rebuild_loop st = Inr st'" and f: "F (rgrid st')"
    and c: "\<And>q. getCell (rgrid st') q = map_option (fin q) (getCell (rgrid st) q)"
    and s: "rscore st' = rscore st + cellsum gain (rgrid st)" by blast
  have "getCell (rgrid st') q =
          (if q = y then Some yard
           else if q \<in> H then (if \<not> isNearRoad q \<and> y \<in> set (neighbours q) then Some villa else Some house)
           else None)" for q
    unfolding c st(1) board fin_def V_def by simp
  moreover have "grid_wf (rgrid st')" using f unfolding F_def by simp
  ultimately show ?thesis using l s total unfolding V_def by auto
qed

lemma grid_wf_emptyGrid: "grid_wf emptyGrid"
  by (simp add: grid_wf_def emptyGrid_def)

lemma getCell_emptyGrid: "getCell emptyGrid q = None"
  unfolding getCell_def valid_pos_def emptyGrid_def
  by (simp add: nat_less_iff)

lemma prefill_Nil: "prefill g [] = g"
  by (simp add: prefill_def)

lemma prefill_snoc: "prefill g (cells @ [(p, tile)]) = setCell (prefill g cells) p (Some tile)"
  by (simp add: prefill_def)

lemma grid_wf_prefill: "grid_wf g \<Longrightarrow> grid_wf (prefill g cells)"
  by (induction cells rule: rev_induct) (auto simp: prefill_Nil prefill_snoc grid_wf_setCell)

lemma getCell_prefill:
  assumes "grid_wf g" "\<forall>(p, tile) \<in> set cells. valid_pos p"
  shows "getCell (prefill g cells) q =
           (case map_of (rev cells) q of None \<Rightarrow> getCell g q | Some tile \<Rightarrow> Some tile)"
  using assms(2)
proof (induction cells rule: rev_induct)
  case Nil
  then show ?case by (simp add: prefill_Nil)
next
  case (snoc x cells)
  obtain p tile where x: "x = (p, tile)" by (cases x)
  have v: "valid_pos p" using snoc.prems x by simp
  have w: "grid_wf (prefill g cells)" using assms(1) by (rule grid_wf_prefill)
  show ?case
    using snoc unfolding x prefill_snoc getCell_setCell [OF w v] by simp
qed

lemma grid_cell_getCell:
  assumes "r < 3" "c < 3" "i < 9"
  shows "g ! r ! c ! i =
     getCell g \<lparr>superblockRow = int r, superblockCol = int c, cellRow = int (i div 3), cellCol = int (i mod 3)\<rparr>"
proof -
  have "nat (int (i div 3) * 3 + int (i mod 3)) = i"
    by (metis div_mult_mod_eq nat_int of_nat_add of_nat_mult of_nat_numeral)
  moreover have "valid_pos \<lparr>superblockRow = int r, superblockCol = int c,
      cellRow = int (i div 3), cellCol = int (i mod 3)\<rparr>"
    using assms by (simp add: valid_pos_def)
  ultimately show ?thesis by (simp add: getCell_def)
qed

lemma grid_ext:
  assumes "grid_wf g" "grid_wf g'" "\<And>q. getCell g q = getCell g' q"
  shows "g = g'"
proof (rule nth_equalityI)
  show "length g = length g'" using assms(1,2) by (simp add: grid_wf_iff)
  fix r assume "r < length g"
  then have r: "r < 3" using assms(1) by (simp add: grid_wf_iff)
  show "g ! r = g' ! r"
  proof (rule nth_equalityI)
    show "length (g ! r) = length (g' ! r)" using assms(1,2) r by (simp add: grid_wf_iff)
    fix c assume "c < length (g ! r)"
    then have c: "c < 3" using assms(1) r by (simp add: grid_wf_iff)
    show "g ! r ! c = g' ! r ! c"
    proof (rule nth_equalityI)
      show "length (g ! r ! c) = length (g' ! r ! c)" using assms(1,2) r c by (simp add: grid_wf_iff)
      fix i assume "i < length (g ! r ! c)"
      then have i: "i < 9" using assms(1) r c by (simp add: grid_wf_iff)
      show "g ! r ! c ! i = g' ! r ! c ! i"
        unfolding grid_cell_getCell [OF r c i] by (rule assms(3))
    qed
  qed
qed

lemma round_trip_placements:
  assumes cells: "distinct [p1, p2, p3, p4, y]"
      "set [p1, p2, p3, p4, y] \<subseteq> set (superblockPositions sbRow sbCol)"
    and board: "grid_wf (grid s)"
      "\<forall>q. getCell (grid s) q = (if q \<in> {p1, p2, p3} then Some house else None)"
    and deck: "deck s = R # L # rest"
    and score: "score s = 0"
  shows "\<exists>g1 g2. grid_wf g1 \<and> grid_wf g2
      \<and> placeTile rnd1 s p4 =
          Inr (True, s\<lparr>deck := fillDeck rnd1 (L # rest), grid := g1, score := - 24, turn := turn s + 1\<rparr>)
      \<and> (\<forall>q. getCell g1 q = (if q \<in> {p1, p2, p3, p4} then Some slums else None))
      \<and> placeTile rnd2 (s\<lparr>deck := fillDeck rnd1 (L # rest), grid := g1, score := - 24, turn := turn s + 1\<rparr>) y =
          Inr (True, s\<lparr>deck := fillDeck rnd2 (tl (fillDeck rnd1 (L # rest))), grid := g2,
                       score := - 24 + 18 * int (card {q \<in> {p1, p2, p3, p4}.
                                                    \<not> isNearRoad q \<and> y \<in> set (neighbours q)}),
                       turn := turn s + 2\<rparr>)
      \<and> (\<forall>q. getCell g2 q =
            (if q = y then Some yard
             else if q \<in> {p1, p2, p3, p4}
                  then (if \<not> isNearRoad q \<and> y \<in> set (neighbours q) then Some villa else Some house)
                  else None))"
proof -
  let ?H = "{p1, p2, p3, p4}"
  let ?sbp = "superblockPositions sbRow sbCol"
  have H: "?H \<subseteq> set ?sbp" "card ?H = 4" using cells by auto
  have y: "y \<in> set ?sbp" "y \<notin> ?H" using cells by auto
  have "valid_pos p1" using board(2) getCell_Some_valid [of "grid s" p1 house] by simp
  moreover have "superblockRow p1 = sbRow \<and> superblockCol p1 = sbCol"
    using cells(2) superblockPositions_iff [of p1] by simp
  ultimately have region: "0 \<le> sbRow" "sbRow < 3" "0 \<le> sbCol" "sbCol < 3"
    by (auto simp: valid_pos_def)
  have valid: "valid_pos q" if "q \<in> set ?sbp" for q
    using that region unfolding superblockPositions_iff valid_pos_def by simp
  have sb: "superblockPositions (superblockRow q) (superblockCol q) = ?sbp" if "q \<in> set ?sbp" for q
    using that unfolding superblockPositions_iff by simp
  have p4: "p4 \<in> set ?sbp" "p4 \<notin> {p1, p2, p3}" using cells by auto
  \<comment> \<open>the first placement\<close>
  have free1: "getCell (grid s) p4 = None" using board(2) p4(2) by simp
  let ?st1 = "rebuild_start s p4 (categoryToDefaultTile R)"
  have "\<exists>st'. rebuild_loop ?st1 = Inr st' \<and> grid_wf (rgrid st')
           \<and> (\<forall>q. getCell (rgrid st') q = (if q \<in> ?H then Some slums else None))
           \<and> rscore st' = rscore ?st1 - 24"
  proof (rule slums_phase [OF H])
    show "grid_wf (setCell (grid s) p4 (Some house))" using board(1) by (rule grid_wf_setCell)
    show "getCell (setCell (grid s) p4 (Some house)) q = (if q \<in> ?H then Some house else None)" for q
      using board(2) by (simp add: getCell_setCell [OF board(1) valid [OF p4(1)]])
    show "rgrid ?st1 = setCell (grid s) p4 (Some house)" by (simp add: rebuild_start_def)
    show "queue ?st1 = ?sbp" by (simp add: rebuild_start_def sb [OF p4(1)])
    show "visited ?st1 = {}" "upgradeCount ?st1 = 0" by (simp_all add: rebuild_start_def)
  qed
  then obtain st1 where l1: "rebuild_loop ?st1 = Inr st1" and wf1: "grid_wf (rgrid st1)"
    and g1: "\<And>q. getCell (rgrid st1) q = (if q \<in> ?H then Some slums else None)"
    and sc1: "rscore st1 = rscore ?st1 - 24" by blast
  have sc1': "rscore st1 = - 24" using sc1 score by (simp add: rebuild_start_def)
  let ?s1 = "s\<lparr>deck := fillDeck rnd1 (L # rest), grid := rgrid st1, score := - 24, turn := turn s + 1\<rparr>"
  have place1: "placeTile rnd1 s p4 = Inr (True, ?s1)"
    using placeTile_placed [OF free1 deck l1, of rnd1] sc1' by simp
  \<comment> \<open>the second placement\<close>
  obtain d' where d': "fillDeck rnd1 (L # rest) = L # d'" using fillDeck_Cons by blast
  have deck1: "deck ?s1 = L # d'" using d' by simp
  have free2: "getCell (grid ?s1) y = None" using g1 y(2) by simp
  let ?st2 = "rebuild_start ?s1 y (categoryToDefaultTile L)"
  let ?n = "card {q \<in> ?H. \<not> isNearRoad q \<and> y \<in> set (neighbours q)}"
  have "\<exists>st'. rebuild_loop ?st2 = Inr st' \<and> grid_wf (rgrid st')
           \<and> (\<forall>q. getCell (rgrid st') q =
                 (if q = y then Some yard
                  else if q \<in> ?H then (if \<not> isNearRoad q \<and> y \<in> set (neighbours q) then Some villa else Some house)
                  else None))
           \<and> rscore st' = rscore ?st2 + 18 * int ?n"
  proof (rule revert_phase [OF H y])
    show "grid_wf (setCell (rgrid st1) y (Some yard))" using wf1 by (rule grid_wf_setCell)
    show "getCell (setCell (rgrid st1) y (Some yard)) q
            = (if q = y then Some yard else if q \<in> ?H then Some slums else None)" for q
      using g1 by (simp add: getCell_setCell [OF wf1 valid [OF y(1)]])
    show "rgrid ?st2 = setCell (rgrid st1) y (Some yard)" by (simp add: rebuild_start_def)
    show "queue ?st2 = ?sbp" by (simp add: rebuild_start_def sb [OF y(1)])
    show "visited ?st2 = {}" "upgradeCount ?st2 = 0" by (simp_all add: rebuild_start_def)
  qed
  then obtain st2 where l2: "rebuild_loop ?st2 = Inr st2" and wf2: "grid_wf (rgrid st2)"
    and g2: "\<And>q. getCell (rgrid st2) q =
                 (if q = y then Some yard
                  else if q \<in> ?H then (if \<not> isNearRoad q \<and> y \<in> set (neighbours q) then Some villa else Some house)
                  else None)"
    and sc2: "rscore st2 = rscore ?st2 + 18 * int ?n" by blast
  have sc2': "rscore st2 = - 24 + 18 * int ?n" using sc2 by (simp add: rebuild_start_def)
  have place2: "placeTile rnd2 ?s1 y =
      Inr (True, s\<lparr>deck := fillDeck rnd2 (tl (fillDeck rnd1 (L # rest))), grid := rgrid st2,
                   score := - 24 + 18 * int ?n, turn := turn s + 2\<rparr>)"
    using placeTile_placed [OF free2 deck1 l2, of rnd2] sc2' d' by simp
  show ?thesis
    using wf1 wf2 place1 g1 place2 g2 by blast
qed

lemma getCell_prefill_empty:
  assumes "\<forall>(p, tile) \<in> set cells. valid_pos p"
  shows "getCell (prefill emptyGrid cells) q = map_of (rev cells) q"
  using getCell_prefill [OF grid_wf_emptyGrid assms, of q]
  by (simp add: getCell_emptyGrid split: option.splits)

lemma rt_start_board:
  "grid_wf (grid rt_start)"
  "\<forall>q. getCell (grid rt_start) q =
     (if q \<in> {mkPos 0 0 0 0, mkPos 0 0 0 1, mkPos 0 0 0 2} then Some house else None)"
  "deck rt_start = R # L # [R, L, C]" "score rt_start = 0"
  by (auto simp: rt_start_def grid_wf_prefill grid_wf_emptyGrid getCell_prefill_empty valid_mkPos)

lemma rt_cells:
  "distinct [mkPos 0 0 0 0, mkPos 0 0 0 1, mkPos 0 0 0 2, mkPos 0 0 1 0, mkPos 0 0 1 1]"
  "set [mkPos 0 0 0 0, mkPos 0 0 0 1, mkPos 0 0 0 2, mkPos 0 0 1 0, mkPos 0 0 1 1]
     \<subseteq> set (superblockPositions 0 0)"
  "distinct [mkPos 0 0 0 0, mkPos 0 0 0 1, mkPos 0 0 0 2, mkPos 0 0 1 1, mkPos 0 0 1 0]"
  "set [mkPos 0 0 0 0, mkPos 0 0 0 1, mkPos 0 0 0 2, mkPos 0 0 1 1, mkPos 0 0 1 0]
     \<subseteq> set (superblockPositions 0 0)"
  by (simp_all add: superblockPositions_iff mkPos_def)

lemma rt_no_villa:
  "{q \<in> {mkPos 0 0 0 0, mkPos 0 0 0 1, mkPos 0 0 0 2, mkPos 0 0 1 0}.
      \<not> isNearRoad q \<and> mkPos 0 0 1 1 \<in> set (neighbours q)} = {}"
  by (auto simp: isNearRoad_def mkPos_def)

lemma rt_one_villa:
  "{q \<in> {mkPos 0 0 0 0, mkPos 0 0 0 1, mkPos 0 0 0 2, mkPos 0 0 1 1}.
      \<not> isNearRoad q \<and> mkPos 0 0 1 0 \<in> set (neighbours q)} = {mkPos 0 0 1 1}"
  by (auto simp: isNearRoad_def neighbours_iff mkPos_def)

lemma rt_test_run_from:
  assumes ex: "\<exists>g1 g2. grid_wf g1 \<and> grid_wf g2
      \<and> placeTile (\<lambda>k. R) rt_start (mkPos 0 0 1 0) =
          Inr (True, rt_start\<lparr>deck := fillDeck (\<lambda>k. R) (L # [R, L, C]), grid := g1, score := - 24,
                              turn := turn rt_start + 1\<rparr>)
      \<and> (\<forall>q. getCell g1 q = (if q \<in> {mkPos 0 0 0 0, mkPos 0 0 0 1, mkPos 0 0 0 2, mkPos 0 0 1 0} then Some slums else None))
      \<and> placeTile (\<lambda>k. R)
            (rt_start\<lparr>deck := fillDeck (\<lambda>k. R) (L # [R, L, C]), grid := g1, score := - 24,
                      turn := turn rt_start + 1\<rparr>) (mkPos 0 0 1 1) =
          Inr (True, rt_start\<lparr>deck := fillDeck (\<lambda>k. R) (tl (fillDeck (\<lambda>k. R) (L # [R, L, C]))), grid := g2,
                       score := - 24 + 18 * int (card {q \<in> {mkPos 0 0 0 0, mkPos 0 0 0 1, mkPos 0 0 0 2, mkPos 0 0 1 0}.
                                                    \<not> isNearRoad q \<and> mkPos 0 0 1 1 \<in> set (neighbours q)}),
                       turn := turn rt_start + 2\<rparr>)
      \<and> (\<forall>q. getCell g2 q =
            (if q = mkPos 0 0 1 1 then Some yard
             else if q \<in> {mkPos 0 0 0 0, mkPos 0 0 0 1, mkPos 0 0 0 2, mkPos 0 0 1 0}
                  then (if \<not> isNearRoad q \<and> mkPos 0 0 1 1 \<in> set (neighbours q) then Some villa else Some house)
                  else None))"
  shows "placeTile (\<lambda>k. R) rt_start (mkPos 0 0 1 0) = Inr (True, rt_slums)
   \<and> placeTile (\<lambda>k. R) rt_slums (mkPos 0 0 1 1) = Inr (True, rt_reverted)"
proof -
  from ex
  obtain g1 g2 where wf: "grid_wf g1" "grid_wf g2"
    and p1: "placeTile (\<lambda>k. R) rt_start (mkPos 0 0 1 0) =
        Inr (True, rt_start\<lparr>deck := fillDeck (\<lambda>k. R) (L # [R, L, C]), grid := g1, score := - 24,
                            turn := turn rt_start + 1\<rparr>)"
    and g1: "\<And>q. getCell g1 q =
        (if q \<in> {mkPos 0 0 0 0, mkPos 0 0 0 1, mkPos 0 0 0 2, mkPos 0 0 1 0} then Some slums else None)"
    and p2: "placeTile (\<lambda>k. R)
          (rt_start\<lparr>deck := fillDeck (\<lambda>k. R) (L # [R, L, C]), grid := g1, score := - 24,
                    turn := turn rt_start + 1\<rparr>) (mkPos 0 0 1 1) =
        Inr (True, rt_start\<lparr>deck := fillDeck (\<lambda>k. R) (tl (fillDeck (\<lambda>k. R) (L # [R, L, C]))), grid := g2,
              score := - 24 + 18 * int (card {q \<in> {mkPos 0 0 0 0, mkPos 0 0 0 1, mkPos 0 0 0 2, mkPos 0 0 1 0}.
                                                \<not> isNearRoad q \<and> mkPos 0 0 1 1 \<in> set (neighbours q)}),
              turn := turn rt_start + 2\<rparr>)"
    and g2: "\<And>q. getCell g2 q =
        (if q = mkPos 0 0 1 1 then Some yard
         else if q \<in> {mkPos 0 0 0 0, mkPos 0 0 0 1, mkPos 0 0 0 2, mkPos 0 0 1 0}
              then (if \<not> isNearRoad q \<and> mkPos 0 0 1 1 \<in> set (neighbours q) then Some villa else Some house)
              else None)"
    by blast
  have e1: "g1 = grid rt_slums"
    by (rule grid_ext [OF wf(1)])
       (auto simp: rt_slums_def g1 grid_wf_prefill grid_wf_emptyGrid getCell_prefill_empty valid_mkPos)
  have nv: "\<not> (\<not> isNearRoad q \<and> mkPos 0 0 1 1 \<in> set (neighbours q))"
    if "q \<in> {mkPos 0 0 0 0, mkPos 0 0 0 1, mkPos 0 0 0 2, mkPos 0 0 1 0}" for q
    using that rt_no_villa by blast
  have e2: "g2 = grid rt_reverted"
    by (rule grid_ext [OF wf(2)])
       (use nv in \<open>auto simp: rt_reverted_def g2 grid_wf_prefill grid_wf_emptyGrid getCell_prefill_empty valid_mkPos\<close>)
  have s1: "rt_start\<lparr>deck := fillDeck (\<lambda>k. R) (L # [R, L, C]), grid := g1, score := - 24,
                    turn := turn rt_start + 1\<rparr> = rt_slums"
    unfolding e1 by (simp add: rt_start_def rt_slums_def fillDeck_four)
  have s2: "rt_start\<lparr>deck := fillDeck (\<lambda>k. R) (tl (fillDeck (\<lambda>k. R) (L # [R, L, C]))), grid := g2,
              score := - 24 + 18 * int (card {q \<in> {mkPos 0 0 0 0, mkPos 0 0 0 1, mkPos 0 0 0 2, mkPos 0 0 1 0}.
                                                \<not> isNearRoad q \<and> mkPos 0 0 1 1 \<in> set (neighbours q)}),
              turn := turn rt_start + 2\<rparr> = rt_reverted"
    unfolding e2 rt_no_villa by (simp add: rt_start_def rt_reverted_def fillDeck_four)
  show ?thesis using p1 p2 unfolding s1 s2 by simp
qed

lemma rt_test_run:
  "placeTile (\<lambda>k. R) rt_start (mkPos 0 0 1 0) = Inr (True, rt_slums)
   \<and> placeTile (\<lambda>k. R) rt_slums (mkPos 0 0 1 1) = Inr (True, rt_reverted)"
  by (rule rt_test_run_from [OF round_trip_placements [OF rt_cells(1,2) rt_start_board]])

lemma rt_villa_run_from:
  assumes ex: "\<exists>g1 g2. grid_wf g1 \<and> grid_wf g2
      \<and> placeTile (\<lambda>k. R) rt_start (mkPos 0 0 1 1) =
          Inr (True, rt_start\<lparr>deck := fillDeck (\<lambda>k. R) (L # [R, L, C]), grid := g1, score := - 24,
                              turn := turn rt_start + 1\<rparr>)
      \<and> (\<forall>q. getCell g1 q = (if q \<in> {mkPos 0 0 0 0, mkPos 0 0 0 1, mkPos 0 0 0 2, mkPos 0 0 1 1} then Some slums else None))
      \<and> placeTile (\<lambda>k. R)
            (rt_start\<lparr>deck := fillDeck (\<lambda>k. R) (L # [R, L, C]), grid := g1, score := - 24,
                      turn := turn rt_start + 1\<rparr>) (mkPos 0 0 1 0) =
          Inr (True, rt_start\<lparr>deck := fillDeck (\<lambda>k. R) (tl (fillDeck (\<lambda>k. R) (L # [R, L, C]))), grid := g2,
                       score := - 24 + 18 * int (card {q \<in> {mkPos 0 0 0 0, mkPos 0 0 0 1, mkPos 0 0 0 2, mkPos 0 0 1 1}.
                                                    \<not> isNearRoad q \<and> mkPos 0 0 1 0 \<in> set (neighbours q)}),
                       turn := turn rt_start + 2\<rparr>)
      \<and> (\<forall>q. getCell g2 q =
            (if q = mkPos 0 0 1 0 then Some yard
             else if q \<in> {mkPos 0 0 0 0, mkPos 0 0 0 1, mkPos 0 0 0 2, mkPos 0 0 1 1}
                  then (if \<not> isNearRoad q \<and> mkPos 0 0 1 0 \<in> set (neighbours q) then Some villa else Some house)
                  else None))"
  shows "placeTile (\<lambda>k. R) rt_start (mkPos 0 0 1 1) = Inr (True, rt_slums_centre)
   \<and> placeTile (\<lambda>k. R) rt_slums_centre (mkPos 0 0 1 0) = Inr (True, rt_villa)"
proof -
  from ex
  obtain g1 g2 where wf: "grid_wf g1" "grid_wf g2"
    and p1: "placeTile (\<lambda>k. R) rt_start (mkPos 0 0 1 1) =
        Inr (True, rt_start\<lparr>deck := fillDeck (\<lambda>k. R) (L # [R, L, C]), grid := g1, score := - 24,
                            turn := turn rt_start + 1\<rparr>)"
    and g1: "\<And>q. getCell g1 q =
        (if q \<in> {mkPos 0 0 0 0, mkPos 0 0 0 1, mkPos 0 0 0 2, mkPos 0 0 1 1} then Some slums else None)"
    and p2: "placeTile (\<lambda>k. R)
          (rt_start\<lparr>deck := fillDeck (\<lambda>k. R) (L # [R, L, C]), grid := g1, score := - 24,
                    turn := turn rt_start + 1\<rparr>) (mkPos 0 0 1 0) =
        Inr (True, rt_start\<lparr>deck := fillDeck (\<lambda>k. R) (tl (fillDeck (\<lambda>k. R) (L # [R, L, C]))), grid := g2,
              score := - 24 + 18 * int (card {q \<in> {mkPos 0 0 0 0, mkPos 0 0 0 1, mkPos 0 0 0 2, mkPos 0 0 1 1}.
                                                \<not> isNearRoad q \<and> mkPos 0 0 1 0 \<in> set (neighbours q)}),
              turn := turn rt_start + 2\<rparr>)"
    and g2: "\<And>q. getCell g2 q =
        (if q = mkPos 0 0 1 0 then Some yard
         else if q \<in> {mkPos 0 0 0 0, mkPos 0 0 0 1, mkPos 0 0 0 2, mkPos 0 0 1 1}
              then (if \<not> isNearRoad q \<and> mkPos 0 0 1 0 \<in> set (neighbours q) then Some villa else Some house)
              else None)"
    by blast
  have e1: "g1 = grid rt_slums_centre"
    by (rule grid_ext [OF wf(1)])
       (auto simp: rt_slums_centre_def g1 grid_wf_prefill grid_wf_emptyGrid getCell_prefill_empty valid_mkPos)
  have v: "(\<not> isNearRoad q \<and> mkPos 0 0 1 0 \<in> set (neighbours q)) \<longleftrightarrow> q = mkPos 0 0 1 1"
    if "q \<in> {mkPos 0 0 0 0, mkPos 0 0 0 1, mkPos 0 0 0 2, mkPos 0 0 1 1}" for q
    using that rt_one_villa by blast
  have e2: "g2 = grid rt_villa"
    by (rule grid_ext [OF wf(2)])
       (use v in \<open>auto simp: rt_villa_def g2 grid_wf_prefill grid_wf_emptyGrid getCell_prefill_empty valid_mkPos\<close>)
  have s1: "rt_start\<lparr>deck := fillDeck (\<lambda>k. R) (L # [R, L, C]), grid := g1, score := - 24,
                    turn := turn rt_start + 1\<rparr> = rt_slums_centre"
    unfolding e1 by (simp add: rt_start_def rt_slums_centre_def fillDeck_four)
  have s2: "rt_start\<lparr>deck := fillDeck (\<lambda>k. R) (tl (fillDeck (\<lambda>k. R) (L # [R, L, C]))), grid := g2,
              score := - 24 + 18 * int (card {q \<in> {mkPos 0 0 0 0, mkPos 0 0 0 1, mkPos 0 0 0 2, mkPos 0 0 1 1}.
                                                \<not> isNearRoad q \<and> mkPos 0 0 1 0 \<in> set (neighbours q)}),
              turn := turn rt_start + 2\<rparr> = rt_villa"
    unfolding e2 rt_one_villa by (simp add: rt_start_def rt_villa_def fillDeck_four)
  show ?thesis using p1 p2 unfolding s1 s2 by simp
qed

lemma rt_villa_run:
  "placeTile (\<lambda>k. R) rt_start (mkPos 0 0 1 1) = Inr (True, rt_slums_centre)
   \<and> placeTile (\<lambda>k. R) rt_slums_centre (mkPos 0 0 1 0) = Inr (True, rt_villa)"
  by (rule rt_villa_run_from [OF round_trip_placements [OF rt_cells(3,4) rt_start_board]])

section \<open>Cascades that settle in one round\<close>

text \<open>
  The resolver reads the cells around the one it examines only through views that kinds
  alike to each other share; so boards whose cells hold alike kinds resolve a cell they
  agree on in the same way.
\<close>

lemma alike_views:
  assumes "rel_option alike x y"
  shows "hasCategory c x = hasCategory c y"
    "x = Some shopping_center \<longleftrightarrow> y = Some shopping_center"
    "x = Some tier2_residential \<longleftrightarrow> y = Some tier2_residential"
    "x = Some school \<longleftrightarrow> y = Some school"
    "x = Some highschool \<longleftrightarrow> y = Some highschool"
    "x = Some university \<longleftrightarrow> y = Some university"
    "residentialValue x = residentialValue y"
  using assms
  by (cases x; cases y; auto simp: alike_def hasCategory_def residentialValue_def)+

lemma dfs_cong:
  assumes "\<And>p. hasCategory C (getCell g p) = hasCategory C (getCell g' p)"
  shows "dfs g pending acc = dfs g' pending acc"
  using assms
proof (induction g pending acc rule: dfs.induct)
  case (1 g acc)
  show ?case by simp
next
  case (2 g pos pending visited clusterSize touchesRoad)
  note P = "2.prems"
  show ?case
  proof (cases "pos \<in> visited")
    case True
    have "dfs g pending (visited, clusterSize, touchesRoad) = dfs g' pending (visited, clusterSize, touchesRoad)"
      using "2.IH"(1) True P by blast
    then show ?thesis using True by simp
  next
    case nv: False
    show ?thesis
    proof (cases "hasCategory C (getCell g pos)")
      case False
      then have c': "\<not> hasCategory C (getCell g' pos)" using P by simp
      have "dfs g pending (visited, clusterSize, touchesRoad) = dfs g' pending (visited, clusterSize, touchesRoad)"
        using "2.IH"(2) nv False P by blast
      then show ?thesis using nv False c' by simp
    next
      case True
      then have c': "hasCategory C (getCell g' pos)" using P by simp
      have "dfs g (map fst (getAdjacentCells g pos) @ pending)
               (insert pos visited, clusterSize + 1, touchesRoad \<or> isNearRoad pos)
          = dfs g' (map fst (getAdjacentCells g pos) @ pending)
               (insert pos visited, clusterSize + 1, touchesRoad \<or> isNearRoad pos)"
        using "2.IH"(3) nv True P by blast
      then show ?thesis using nv True c' by (simp add: getAdjacentCells_neighbours)
    qed
  qed
qed

lemma resolve_cong:
  assumes same: "getCell g pos = getCell g' pos"
    and al: "\<And>p. rel_option alike (getCell g p) (getCell g' p)"
  shows "resolve g pos = resolve g' pos"
proof -
  note v = alike_views [OF al]
  have cnt: "countInSuperblock g r c cat = countInSuperblock g' r c cat" for r c cat
    by (simp add: countInSuperblock_def v(1))
  have cntA: "countInAdjacentSuperblocks g r c cat = countInAdjacentSuperblocks g' r c cat" for r c cat
    by (simp add: countInAdjacentSuperblocks_def cnt)
  have cntT: "countTileTypeInAdjacentSuperblocks g r c t = countTileTypeInAdjacentSuperblocks g' r c t"
    if "t \<in> {shopping_center, tier2_residential, school, highschool, university}" for r c t
    using that
    by (auto simp: countTileTypeInAdjacentSuperblocks_def countTileTypeInSuperblock_def v)
  have cntV: "countResidentialValueInAdjacentSuperblocks g r c = countResidentialValueInAdjacentSuperblocks g' r c"
    for r c
    by (simp add: countResidentialValueInAdjacentSuperblocks_def v(7))
  have adj: "map (hasCategory cat) (adjacentTiles g pos) = map (hasCategory cat) (adjacentTiles g' pos)"
    "map (\<lambda>t. t = Some shopping_center) (adjacentTiles g pos)
       = map (\<lambda>t. t = Some shopping_center) (adjacentTiles g' pos)" for cat
    by (simp_all add: getAdjacentCells_neighbours v)
  have ex: "list_ex P (adjacentTiles g pos) = list_ex (\<lambda>b. b) (map P (adjacentTiles g pos))"
    "list_ex P (adjacentTiles g' pos) = list_ex (\<lambda>b. b) (map P (adjacentTiles g' pos))"
    "length (filter P (adjacentTiles g pos)) = length (filter (\<lambda>b. b) (map P (adjacentTiles g pos)))"
    "length (filter P (adjacentTiles g' pos)) = length (filter (\<lambda>b. b) (map P (adjacentTiles g' pos)))"
    for P
    by (simp_all add: list_ex_iff filter_map comp_def)
  have adjL: "list_ex (hasCategory cat) (adjacentTiles g pos) = list_ex (hasCategory cat) (adjacentTiles g' pos)"
    "length (filter (hasCategory cat) (adjacentTiles g pos)) = length (filter (hasCategory cat) (adjacentTiles g' pos))"
    "list_ex (\<lambda>t. t = Some shopping_center) (adjacentTiles g pos)
       = list_ex (\<lambda>t. t = Some shopping_center) (adjacentTiles g' pos)" for cat
    unfolding ex adj by simp_all
  have sq: "checkLeisureSquare pos g = checkLeisureSquare pos g'"
    by (simp add: checkLeisureSquare_def v(1))
  have cl: "findConnectedCommercialCluster pos g = findConnectedCommercialCluster pos g'"
    unfolding findConnectedCommercialCluster_def dfs_cong [of g g', OF v(1)]
    by (rule refl)
  have rules:
    "residential_slums pos g = residential_slums pos g'"
    "residential_hotel pos g = residential_hotel pos g'"
    "residential_villa pos g = residential_villa pos g'"
    "residential_tier2_residential pos g = residential_tier2_residential pos g'"
    "residential_highrise pos g = residential_highrise pos g'"
    "leisure_sports pos g = leisure_sports pos g'"
    "leisure_playground pos g = leisure_playground pos g'"
    "leisure_plaza pos g = leisure_plaza pos g'"
    "leisure_park pos g = leisure_park pos g'"
    "leisure_cinema pos g = leisure_cinema pos g'"
    "commercial_shopping_center pos g = commercial_shopping_center pos g'"
    "commercial_restaurant pos g = commercial_restaurant pos g'"
    "commercial_bank pos g = commercial_bank pos g'"
    "education_highschool pos g = education_highschool pos g'"
    "education_university pos g = education_university pos g'"
    "slumsDowngrade_house pos g = slumsDowngrade_house pos g'"
    unfolding residential_slums_def residential_hotel_def residential_villa_def
      residential_tier2_residential_def residential_highrise_def
      leisure_sports_def leisure_playground_def leisure_plaza_def leisure_park_def leisure_cinema_def
      commercial_shopping_center_def commercial_restaurant_def commercial_bank_def
      education_highschool_def education_university_def slumsDowngrade_house_def
      same cnt cntA cntV adjL sq cl
    by (simp_all add: cntT)
  have lists: "residentialUpgrades pos g = residentialUpgrades pos g'"
    "leisureUpgrades pos g = leisureUpgrades pos g'"
    "commercialUpgrades pos g = commercialUpgrades pos g'"
    "educationUpgrades pos g = educationUpgrades pos g'"
    "slumsDowngrade pos g = slumsDowngrade pos g'"
    by (simp_all add: residentialUpgrades_def leisureUpgrades_def commercialUpgrades_def
        educationUpgrades_def slumsDowngrade_def rules)
  have u: "getUpgradesForTile t pos g = getUpgradesForTile t pos g'" for t
    by (cases "tileToCategory t") (simp_all add: getUpgradesForTile_def Let_def lists)
  show ?thesis
    unfolding resolve_def same u by (rule refl)
qed

lemma alike_refl: "rel_option alike x x"
  by (cases x) (simp_all add: alike_def)

lemma alike_sym: "alike t t' \<Longrightarrow> alike t' t"
  by (auto simp: alike_def)

lemma resolve_not_current: "getCell g q = Some t \<Longrightarrow> resolve g q \<noteq> Some t"
  using appliedUpgrade_Some [of t "map_of (getUpgradesForTile t q g)" upgradePriority t]
  by (auto simp: resolve_def)

lemma resolve_empty: "getCell g q = None \<Longrightarrow> resolve g q = None"
  by (simp add: resolve_def)

lemma cellsum_list:
  assumes "\<And>q. q \<notin> set ps \<Longrightarrow> getCell g q = None" "distinct ps"
  shows "cellsum h g = sum_list (map (\<lambda>q. case getCell g q of None \<Rightarrow> 0 | Some t \<Rightarrow> h q t) ps)"
proof -
  let ?f = "\<lambda>q. case getCell g q of None \<Rightarrow> 0 | Some t \<Rightarrow> h q t"
  have "sum ?f {q. valid_pos q} = sum ?f (set ps)"
  proof (rule sum.mono_neutral_cong)
    show "finite (set ps)" by simp
    show "finite {q. valid_pos q}" by (rule valid_pos_finite)
    show "?f q = 0" if "q \<in> set ps - {q. valid_pos q}" for q
    proof -
      have "getCell g q = None" using that by (simp add: getCell_def)
      then show ?thesis by simp
    qed
    show "?f q = 0" if "q \<in> {q. valid_pos q} - set ps" for q
      using that assms(1) [of q] by simp
  qed simp
  then show ?thesis
    unfolding cellsum_def using assms(2) by (simp add: sum_list_distinct_conv_sum_set)
qed

text \<open>
  Suppose every change the resolver selects on a board replaces a kind by one alike to it,
  and the board \<open>g1\<close> on which all these changes are made has no change left to make.
  Then from any state on the first board whose queue holds every cell with a change to
  make, the loop returns \<open>g1\<close>, and the score has grown by the points of these changes.
\<close>

lemma settle_in_one_round:
  assumes wf: "grid_wf (rgrid st)" "grid_wf g1"
    and occ: "\<And>q. q \<notin> set ps \<Longrightarrow> getCell (rgrid st) q = None"
    and g1: "\<And>q. getCell g1 q =
               (case resolve (rgrid st) q of None \<Rightarrow> getCell (rgrid st) q | Some t' \<Rightarrow> Some t')"
    and al: "\<And>q t t'. getCell (rgrid st) q = Some t \<Longrightarrow> resolve (rgrid st) q = Some t' \<Longrightarrow> alike t t'"
    and stable: "\<And>q. resolve g1 q = None"
    and pend: "\<And>q. resolve (rgrid st) q \<noteq> None \<Longrightarrow> q \<in> set (queue st) \<and> q \<notin> visited st"
    and ps: "distinct ps"
    and bound: "upgradeCount st + length ps < MAX_UPGRADES"
  shows "\<exists>st'. rebuild_loop st = Inr st' \<and> rgrid st' = g1
           \<and> rscore st' = rscore st
               + sum_list (map (\<lambda>q. case resolve (rgrid st) q of None \<Rightarrow> 0 | Some t' \<Rightarrow> points t') ps)"
proof -
  define g0 where "g0 = rgrid st"
  define nxt :: "Position \<Rightarrow> TileType \<Rightarrow> TileType option"
    where "nxt q t = (if getCell g0 q = Some t then resolve g0 q else None)" for q t
  define F where "F g' \<longleftrightarrow> grid_wf g' \<and> (\<forall>q. getCell g' q = getCell g0 q \<or> getCell g' q = getCell g1 q)"
    for g'
  define rk :: "Position \<Rightarrow> TileType \<Rightarrow> nat"
    where "rk q t = (case nxt q t of None \<Rightarrow> 0 | Some t' \<Rightarrow> 1)" for q t
  define fin :: "Position \<Rightarrow> TileType \<Rightarrow> TileType"
    where "fin q t = (case nxt q t of None \<Rightarrow> t | Some t' \<Rightarrow> t')" for q t
  define gain :: "Position \<Rightarrow> TileType \<Rightarrow> int"
    where "gain q t = (case nxt q t of None \<Rightarrow> 0 | Some t' \<Rightarrow> points t')" for q t
  note g1' = g1 [folded g0_def] and al' = al [folded g0_def] and occ' = occ [folded g0_def]
  have last: "nxt q t' = None" if "nxt q t = Some t'" for q t t'
  proof -
    from that have c: "getCell g0 q = Some t" and r: "resolve g0 q = Some t'"
      unfolding nxt_def by (simp_all split: if_splits)
    have "t' \<noteq> t" using resolve_not_current [OF c] r by auto
    then show ?thesis using c unfolding nxt_def by simp
  qed
  have g01: "rel_option alike (getCell g0 p) (getCell g1 p)" for p
  proof (cases "resolve g0 p")
    case None
    then show ?thesis using g1' [of p] by (simp add: alike_refl)
  next
    case (Some t')
    then obtain t where t: "getCell g0 p = Some t" using resolve_Some_occupied by blast
    show ?thesis using g1' [of p] Some t al' [OF t Some] by simp
  qed
  have g10: "rel_option alike (getCell g1 p) (getCell g0 p)" for p
    using g01 [of p] by (cases "getCell g0 p"; cases "getCell g1 p") (auto intro: alike_sym)
  have F_resolve: "resolve g' q = nxt q t" if f: "F g'" and c: "getCell g' q = Some t" for g' q t
  proof (cases "getCell g0 q = Some t")
    case True
    have "rel_option alike (getCell g' p) (getCell g0 p)" for p
      using f g10 [of p] unfolding F_def by (metis alike_refl)
    then have "resolve g' q = resolve g0 q"
      using c True by (intro resolve_cong) simp_all
    then show ?thesis using True unfolding nxt_def by simp
  next
    case False
    then have e: "getCell g' q = getCell g1 q" using f c unfolding F_def by metis
    have "rel_option alike (getCell g' p) (getCell g1 p)" for p
      using f g01 [of p] unfolding F_def by (metis alike_refl)
    then have "resolve g' q = resolve g1 q"
      using e by (intro resolve_cong) simp_all
    then show ?thesis using False stable unfolding nxt_def by simp
  qed
  have F_step: "F (setCell g' q (Some t'))"
    if f: "F g'" and c: "getCell g' q = Some t" and n: "nxt q t = Some t'" for g' q t t'
  proof -
    from n have r: "resolve g0 q = Some t'" unfolding nxt_def by (simp split: if_splits)
    have v: "valid_pos q" using c by (rule getCell_Some_valid)
    have w: "grid_wf g'" using f unfolding F_def by simp
    have "getCell g1 q = Some t'" using g1' [of q] r by simp
    then show ?thesis
      unfolding F_def using f unfolding F_def
      by (auto simp: getCell_setCell [OF w v] grid_wf_setCell)
  qed
  have rank: "cellsum rk g0 \<le> length ps"
  proof -
    have "sum_list (map (\<lambda>q. case getCell g0 q of None \<Rightarrow> 0 | Some t \<Rightarrow> rk q t) ps)
            \<le> sum_list (map (\<lambda>q. 1) ps)"
      by (rule sum_list_mono) (auto simp: rk_def split: option.splits)
    moreover have "cellsum rk g0 = sum_list (map (\<lambda>q. case getCell g0 q of None \<Rightarrow> 0 | Some t \<Rightarrow> rk q t) ps)"
      by (rule cellsum_list [OF occ' ps])
    ultimately show ?thesis by (simp add: sum_list_triv)
  qed
  have total: "cellsum gain g0
      = sum_list (map (\<lambda>q. case resolve g0 q of None \<Rightarrow> 0 | Some t' \<Rightarrow> points t') ps)"
  proof -
    have "(case getCell g0 q of None \<Rightarrow> 0 | Some t \<Rightarrow> gain q t)
          = (case resolve g0 q of None \<Rightarrow> 0 | Some t' \<Rightarrow> points t')" for q
      by (cases "getCell g0 q") (simp_all add: resolve_empty gain_def nxt_def)
    moreover have "cellsum gain g0 = sum_list (map (\<lambda>q. case getCell g0 q of None \<Rightarrow> 0 | Some t \<Rightarrow> gain q t) ps)"
      by (rule cellsum_list [OF occ' ps])
    ultimately show ?thesis by simp
  qed
  have "\<exists>st'. rebuild_loop st = Inr st' \<and> F (rgrid st')
           \<and> (\<forall>q. getCell (rgrid st') q = map_option (fin q) (getCell (rgrid st) q))
           \<and> rscore st' = rscore st + cellsum gain (rgrid st)"
  proof (rule cascade_settles [where nxt = nxt and rk = rk])
    show "\<And>g. F g \<Longrightarrow> grid_wf g" unfolding F_def by simp
    show "\<And>g q t. F g \<Longrightarrow> getCell g q = Some t \<Longrightarrow> resolve g q = nxt q t" by (rule F_resolve)
    show "\<And>g q t t'. F g \<Longrightarrow> getCell g q = Some t \<Longrightarrow> nxt q t = Some t' \<Longrightarrow> F (setCell g q (Some t'))"
      by (rule F_step)
    show "\<And>q t t'. nxt q t = Some t' \<Longrightarrow> rk q t' < rk q t"
      using last unfolding rk_def by simp
    show "\<And>q t. fin q t = (case nxt q t of None \<Rightarrow> t | Some t' \<Rightarrow> fin q t')"
      using last unfolding fin_def by (simp split: option.splits)
    show "\<And>q t. gain q t = (case nxt q t of None \<Rightarrow> 0 | Some t' \<Rightarrow> points t' + gain q t')"
      using last unfolding gain_def by (simp split: option.splits)
    show "F (rgrid st)" unfolding F_def using wf(1) by (simp add: g0_def)
    show "\<And>q t. getCell (rgrid st) q = Some t \<Longrightarrow> nxt q t \<noteq> None \<Longrightarrow> q \<in> set (queue st) \<and> q \<notin> visited st"
      using pend unfolding nxt_def g0_def by (simp split: if_splits)
    show "upgradeCount st + cellsum rk (rgrid st) < MAX_UPGRADES"
      using rank bound unfolding g0_def by linarith
  qed
  then obtain st' where l: "rebuild_loop st = Inr st'" and f: "F (rgrid st')"
    and c: "\<And>q. getCell (rgrid st') q = map_option (fin q) (getCell (rgrid st) q)"
    and s: "rscore st' = rscore st + cellsum gain (rgrid st)" by blast
  have "rgrid st' = g1"
  proof (rule grid_ext)
    show "grid_wf (rgrid st')" using f unfolding F_def by simp
    show "grid_wf g1" by (rule wf(2))
    show "getCell (rgrid st') q = getCell g1 q" for q
      unfolding c g1' [of q] g0_def [symmetric]
      by (cases "getCell g0 q") (simp_all add: resolve_empty fin_def nxt_def split: option.splits)
  qed
  then show ?thesis using l s total unfolding g0_def by simp
qed

section \<open>A fourth house next to a superblock with two shops\<close>

lemma spill_first: "resolve spill_board0 (mkPos 1 0 0 0) = Some slums"
  by (simp add: resolve_def spill_board0_def rule_defs accessor_defs)

lemma spill_before:
  "map (resolve spill_board1) spill_cells =
     [Some restaurant, Some restaurant, None, None, None,
      None, None, None, None,
      None, Some slums, Some slums, Some slums]"
  unfolding spill_cells_def list.map
  by (simp add: resolve_def spill_board1_def rule_defs accessor_defs)

lemma spill_after:
  "map (resolve spill_board2) spill_cells =
     [None, None, None, None, None, None, None, None, None, None, None, None, None]"
  unfolding spill_cells_def list.map
  by (simp add: resolve_def spill_board2_def rule_defs accessor_defs)

lemma spill_tiles1:
  "map (getCell spill_board1) spill_cells =
     [Some shop, Some shop, Some house, Some house, Some house,
      Some yard, Some house, Some house, Some house,
      Some slums, Some house, Some house, Some house]"
  unfolding spill_cells_def list.map
  by (simp add: spill_board1_def accessor_defs)

lemma spill_tiles2:
  "map (getCell spill_board2) spill_cells =
     [Some restaurant, Some restaurant, Some house, Some house, Some house,
      Some yard, Some house, Some house, Some house,
      Some slums, Some slums, Some slums, Some slums]"
  unfolding spill_cells_def list.map
  by (simp add: spill_board2_def accessor_defs)

lemma emptyGrid_literal: "emptyGrid = pend_board0"
  by (simp add: emptyGrid_def pend_board0_def emptyRow_def emptyBlock_def numeral_eq_Suc)

lemma spill_board1_prefill:
  "spill_board1 = prefill emptyGrid (zip spill_cells
     [shop, shop, house, house, house, yard, house, house, house, slums, house, house, house])"
  unfolding emptyGrid_literal
  by (simp add: prefill_def spill_cells_def spill_board1_def pend_board0_def setCell_def valid_pos_def
      mkPos_def emptyRow_def emptyBlock_def)

lemma spill_board2_prefill:
  "spill_board2 = prefill emptyGrid (zip spill_cells
     [restaurant, restaurant, house, house, house, yard, house, house, house, slums, slums, slums, slums])"
  unfolding emptyGrid_literal
  by (simp add: prefill_def spill_cells_def spill_board2_def pend_board0_def setCell_def valid_pos_def
      mkPos_def emptyRow_def emptyBlock_def)

lemma spill_cells_valid: "list_all valid_pos spill_cells"
  by (simp add: spill_cells_def valid_mkPos)

lemma prefill_unoccupied:
  assumes "list_all valid_pos ps" "length ts = length ps" "q \<notin> set ps"
  shows "getCell (prefill emptyGrid (zip ps ts)) q = None"
proof -
  have v: "\<forall>(p, tile) \<in> set (zip ps ts). valid_pos p"
    using assms(1) by (auto simp: list_all_iff dest: set_zip_leftD)
  have "q \<notin> fst ` set (rev (zip ps ts))"
    using assms(3) by (auto dest: set_zip_leftD)
  then have "map_of (rev (zip ps ts)) q = None"
    by (simp add: map_of_eq_None_iff)
  then show ?thesis by (simp add: getCell_prefill_empty [OF v])
qed

lemma spill_unoccupied:
  assumes "q \<notin> set spill_cells"
  shows "getCell spill_board1 q = None" "getCell spill_board2 q = None"
  unfolding spill_board1_prefill spill_board2_prefill
  by (rule prefill_unoccupied [OF spill_cells_valid _ assms], simp add: spill_cells_def)+

lemma spill_wf: "grid_wf spill_board1" "grid_wf spill_board2"
  unfolding spill_board1_prefill spill_board2_prefill
  by (simp_all add: grid_wf_prefill grid_wf_emptyGrid)

lemmas spill_tables =
  spill_before [unfolded spill_cells_def list.map list.inject]
  spill_after [unfolded spill_cells_def list.map list.inject]
  spill_tiles1 [unfolded spill_cells_def list.map list.inject]
  spill_tiles2 [unfolded spill_cells_def list.map list.inject]

text \<open>
  Once the first house of superblock (1,0) has become slums, the cells of the adjacent
  superblocks are in the queue: the other three houses become slums, and the two shops of
  superblock (0,0), which now count ten residential tiles around them, become restaurants.
\<close>

lemma spill_settles:
  assumes st: "rgrid st = spill_board1" "upgradeCount st = 1" "visited st = {}"
    "set (requeue spill_board1 (mkPos 1 0 0 0)) \<subseteq> set (queue st)"
  shows "\<exists>st'. rebuild_loop st = Inr st' \<and> rgrid st' = spill_board2 \<and> rscore st' = rscore st + 22"
proof -
  have in_cells: "q = mkPos 0 0 0 0 \<or> q = mkPos 0 0 0 1 \<or> q = mkPos 0 0 2 0 \<or> q = mkPos 0 0 2 1
      \<or> q = mkPos 0 0 2 2 \<or> q = mkPos 0 1 0 0 \<or> q = mkPos 0 1 0 2 \<or> q = mkPos 0 1 2 0
      \<or> q = mkPos 0 1 2 1 \<or> q = mkPos 1 0 0 0 \<or> q = mkPos 1 0 0 1 \<or> q = mkPos 1 0 0 2
      \<or> q = mkPos 1 0 1 0" if "q \<in> set spill_cells" for q
    using that by (simp add: spill_cells_def)
  have g1: "getCell spill_board2 q =
      (case resolve spill_board1 q of None \<Rightarrow> getCell spill_board1 q | Some t' \<Rightarrow> Some t')" for q
  proof (cases "q \<in> set spill_cells")
    case True
    from in_cells [OF True] show ?thesis
      by (elim disjE) (simp_all add: spill_tables)
  next
    case False
    then show ?thesis by (simp add: spill_unoccupied resolve_empty)
  qed
  have al: "alike t t'" if "getCell spill_board1 q = Some t" "resolve spill_board1 q = Some t'" for q t t'
  proof (cases "q \<in> set spill_cells")
    case True
    from in_cells [OF True] that show ?thesis
      by (elim disjE) (auto simp: spill_tables alike_def)
  next
    case False
    then show ?thesis using that by (simp add: spill_unoccupied)
  qed
  have stable: "resolve spill_board2 q = None" for q
  proof (cases "q \<in> set spill_cells")
    case True
    from in_cells [OF True] show ?thesis
      by (elim disjE) (simp_all add: spill_tables)
  next
    case False
    then show ?thesis by (simp add: spill_unoccupied resolve_empty)
  qed
  have pend: "q \<in> set (queue st) \<and> q \<notin> visited st" if "resolve spill_board1 q \<noteq> None" for q
  proof (cases "q \<in> set spill_cells")
    case True
    from in_cells [OF True] that
    have "q = mkPos 0 0 0 0 \<or> q = mkPos 0 0 0 1 \<or> q = mkPos 1 0 0 1 \<or> q = mkPos 1 0 0 2 \<or> q = mkPos 1 0 1 0"
      by (elim disjE) (simp_all add: spill_tables)
    then have "q \<in> set (requeue spill_board1 (mkPos 1 0 0 0))"
      by (elim disjE)
         (simp_all add: requeue_def superblockPositions_iff getAdjacentSuperblocks_def directions_def mkPos_def)
    then show ?thesis using st(3,4) by auto
  next
    case False
    then show ?thesis using that by (simp add: spill_unoccupied resolve_empty)
  qed
  have d: "distinct spill_cells" by (simp add: spill_cells_def mkPos_def)
  have total: "sum_list (map (\<lambda>q. case resolve spill_board1 q of None \<Rightarrow> 0 | Some t' \<Rightarrow> points t') spill_cells)
      = 22"
  proof -
    have "map (\<lambda>q. case resolve spill_board1 q of None \<Rightarrow> 0 | Some t' \<Rightarrow> points t') spill_cells
        = map (\<lambda>r. case r of None \<Rightarrow> 0 | Some t' \<Rightarrow> points t') (map (resolve spill_board1) spill_cells)"
      by simp
    then show ?thesis unfolding spill_before by (simp add: points_def)
  qed
  have "\<exists>st'. rebuild_loop st = Inr st' \<and> rgrid st' = spill_board2
           \<and> rscore st' = rscore st
               + sum_list (map (\<lambda>q. case resolve (rgrid st) q of None \<Rightarrow> 0 | Some t' \<Rightarrow> points t') spill_cells)"
  proof (rule settle_in_one_round)
    show "grid_wf (rgrid st)" "grid_wf spill_board2" by (simp_all add: st(1) spill_wf)
    show "\<And>q. q \<notin> set spill_cells \<Longrightarrow> getCell (rgrid st) q = None"
      by (simp add: st(1) spill_unoccupied)
    show "\<And>q. getCell spill_board2 q =
        (case resolve (rgrid st) q of None \<Rightarrow> getCell (rgrid st) q | Some t' \<Rightarrow> Some t')"
      unfolding st(1) by (rule g1)
    show "\<And>q t t'. getCell (rgrid st) q = Some t \<Longrightarrow> resolve (rgrid st) q = Some t' \<Longrightarrow> alike t t'"
      unfolding st(1) by (rule al)
    show "\<And>q. resolve spill_board2 q = None" by (rule stable)
    show "\<And>q. resolve (rgrid st) q \<noteq> None \<Longrightarrow> q \<in> set (queue st) \<and> q \<notin> visited st"
      unfolding st(1) by (rule pend)
    show "distinct spill_cells" by (rule d)
    show "upgradeCount st + length spill_cells < MAX_UPGRADES"
      by (simp add: st(2) spill_cells_def MAX_UPGRADES_def)
  qed
  then show ?thesis unfolding st(1) total by simp
qed

lemma spill_place:
  "placeTile (\<lambda>k. R) pend_store12 (mkPos 1 0 1 0) = Inr (True, spill_store)"
proof -
  let ?p = "mkPos 1 0 1 0"
  let ?st0 = "rebuild_start pend_store12 ?p house"
  have free: "getCell (grid pend_store12) ?p = None"
    by (simp add: pend_store12_def pend_board12_def accessor_defs)
  have deck: "deck pend_store12 = R # take 4 (drop 13 pend_draws)"
    by (simp add: pend_store12_def pend_draws_def)
  have b0: "setCell (grid pend_store12) ?p (Some house) = spill_board0"
    by (simp add: pend_store12_def pend_board12_def spill_board0_def setCell_def valid_pos_def mkPos_def
        emptyRow_def emptyBlock_def)
  have b1: "setCell spill_board0 (mkPos 1 0 0 0) (Some slums) = spill_board1"
    by (simp add: spill_board0_def spill_board1_def setCell_def valid_pos_def mkPos_def
        emptyRow_def emptyBlock_def)
  obtain rest where q: "superblockPositions 1 0 = mkPos 1 0 0 0 # rest"
    by (simp add: superblockPositions_def mkPos_def)
  have st0: "rgrid ?st0 = spill_board0" "rscore ?st0 = 0" "queue ?st0 = mkPos 1 0 0 0 # rest"
    "visited ?st0 = {}" "upgradeCount ?st0 = 0"
    using b0 q by (simp_all add: rebuild_start_def pend_store12_def mkPos_def)
  let ?st1 = "rebuild_step ?st0"
  have st1: "rgrid ?st1 = spill_board1" "rscore ?st1 = - 6"
    "queue ?st1 = rest @ requeue spill_board1 (mkPos 1 0 0 0)"
    "visited ?st1 = {}" "upgradeCount ?st1 = 1"
    unfolding rebuild_step_resolve st0 by (simp_all add: spill_first b1 points_def)
  have "rebuild_loop ?st0 = rebuild_loop ?st1"
    by (rule rebuild_loop_Cons) (simp_all add: st0 MAX_UPGRADES_def)
  moreover have "\<exists>st'. rebuild_loop ?st1 = Inr st' \<and> rgrid st' = spill_board2 \<and> rscore st' = rscore ?st1 + 22"
    by (rule spill_settles) (simp_all add: st1)
  ultimately obtain st' where l: "rebuild_loop ?st0 = Inr st'" and g: "rgrid st' = spill_board2"
    and s: "rscore st' = 16" unfolding st1 by auto
  have f: "fillDeck (\<lambda>k. R) (take 4 (drop 13 pend_draws)) = take 5 (drop 13 pend_draws)"
    by (simp add: pend_draws_def fillDeck_four)
  have l': "rebuild_loop (rebuild_start pend_store12 ?p (categoryToDefaultTile R)) = Inr st'"
    using l by simp
  show ?thesis
    unfolding placeTile_placed [OF free deck l'] g s f
    by (simp add: pend_store12_def spill_store_def)
qed

section \<open>The Slums rule, its downgrade and the round trip\<close>

lemma house_candidate:
  "map_of (getUpgradesForTile tile pos g) house =
     (if tile = slums then Some (slumsDowngrade_house pos g) else None)"
  by (cases tile)
     (simp_all add: getUpgradesForTile_def residentialUpgrades_def leisureUpgrades_def
        commercialUpgrades_def educationUpgrades_def slumsDowngrade_def)

lemma slums_candidate:
  "map_of (getUpgradesForTile tile pos g) slums =
     (if tileToCategory tile = R then Some (residential_slums pos g) else None)"
  by (cases tile)
     (simp_all add: getUpgradesForTile_def residentialUpgrades_def leisureUpgrades_def
        commercialUpgrades_def educationUpgrades_def slumsDowngrade_def)

lemma slumsDowngrade_met_iff:
  "allMet (Some (slumsDowngrade_house pos g)) \<longleftrightarrow>
     getCell g pos = Some slums
     \<and> (0 < countInSuperblock g (superblockRow pos) (superblockCol pos) L
        \<or> 0 < countInSuperblock g (superblockRow pos) (superblockCol pos) E)"
  by (simp add: allMet_def slumsDowngrade_house_def Let_def)

lemma slums_met_iff:
  "allMet (Some (residential_slums pos g)) \<longleftrightarrow>
     getCell g pos = Some house
     \<and> 4 \<le> countInSuperblock g (superblockRow pos) (superblockCol pos) R
     \<and> countInSuperblock g (superblockRow pos) (superblockCol pos) L = 0
     \<and> countInSuperblock g (superblockRow pos) (superblockCol pos) E = 0"
  by (simp add: allMet_def residential_slums_def Let_def)

lemma tier2_met_iff:
  "allMet (Some (residential_tier2_residential pos g)) \<longleftrightarrow>
     (getCell g pos = Some house \<or> getCell g pos = Some slums)
     \<and> 3 \<le> countInSuperblock g (superblockRow pos) (superblockCol pos) R
     \<and> 1 \<le> countInSuperblock g (superblockRow pos) (superblockCol pos) L
     \<and> 1 \<le> countInSuperblock g (superblockRow pos) (superblockCol pos) C
     \<and> 1 \<le> countInSuperblock g (superblockRow pos) (superblockCol pos) E"
  by (simp add: allMet_def residential_tier2_residential_def Let_def)

lemma resolve_to_house_iff:
  "resolve g pos = Some house \<longleftrightarrow>
     getCell g pos = Some slums
     \<and> (0 < countInSuperblock g (superblockRow pos) (superblockCol pos) L
        \<or> 0 < countInSuperblock g (superblockRow pos) (superblockCol pos) E)
     \<and> \<not> (3 \<le> countInSuperblock g (superblockRow pos) (superblockCol pos) R
          \<and> 1 \<le> countInSuperblock g (superblockRow pos) (superblockCol pos) L
          \<and> 1 \<le> countInSuperblock g (superblockRow pos) (superblockCol pos) C
          \<and> 1 \<le> countInSuperblock g (superblockRow pos) (superblockCol pos) E)"
proof (cases "getCell g pos")
  case None
  then show ?thesis by (simp add: resolve_def)
next
  case (Some cur)
  show ?thesis
  proof (cases "cur = slums")
    case True
    then show ?thesis
      using Some by (simp add: resolve_slums slumsDowngrade_met_iff tier2_met_iff)
  next
    case False
    have "resolve g pos \<noteq> Some house"
    proof
      assume "resolve g pos = Some house"
      then have "allMet (map_of (getUpgradesForTile cur pos g) house)"
        using Some appliedUpgrade_Some by (fastforce simp: resolve_def)
      then show False using False by (simp add: house_candidate)
    qed
    then show ?thesis using Some False by simp
  qed
qed

lemma adjacent_in_block:
  assumes "list_ex (hasCategory c) (adjacentTiles g pos)"
  shows "0 < countInSuperblock g (superblockRow pos) (superblockCol pos) c"
proof -
  from assms obtain q where q: "q \<in> set (neighbours pos)" "hasCategory c (getCell g q)"
    by (auto simp: list_ex_adjacentTiles)
  have "q \<in> set (superblockPositions (superblockRow pos) (superblockCol pos))"
    using q(1) by (simp add: neighbours_iff superblockPositions_iff)
  then have "{q \<in> set (superblockPositions (superblockRow pos) (superblockCol pos)).
                hasCategory c (getCell g q)} \<noteq> {}"
    using q(2) by blast
  then show ?thesis by (simp add: countInSuperblock_card card_gt_0_iff)
qed

lemma resolve_to_slums_iff:
  "resolve g pos = Some slums \<longleftrightarrow>
     getCell g pos = Some house
     \<and> 4 \<le> countInSuperblock g (superblockRow pos) (superblockCol pos) R
     \<and> countInSuperblock g (superblockRow pos) (superblockCol pos) L = 0
     \<and> countInSuperblock g (superblockRow pos) (superblockCol pos) E = 0"
proof (cases "getCell g pos = Some house")
  case True
  have v: "allMet (Some (residential_villa pos g))
             \<Longrightarrow> 0 < countInSuperblock g (superblockRow pos) (superblockCol pos) L"
    using adjacent_in_block [of L g pos] True
    by (simp add: allMet_def residential_villa_def Let_def)
  have h: "allMet (Some (residential_hotel pos g))
             \<Longrightarrow> countInSuperblock g (superblockRow pos) (superblockCol pos) R < 3"
    using True by (simp add: allMet_def residential_hotel_def Let_def)
  have sl: "allMet (Some (residential_slums pos g)) \<longleftrightarrow>
      4 \<le> countInSuperblock g (superblockRow pos) (superblockCol pos) R
      \<and> countInSuperblock g (superblockRow pos) (superblockCol pos) L = 0
      \<and> countInSuperblock g (superblockRow pos) (superblockCol pos) E = 0"
    using True by (simp add: slums_met_iff)
  have t2: "allMet (Some (residential_tier2_residential pos g))
             \<Longrightarrow> 1 \<le> countInSuperblock g (superblockRow pos) (superblockCol pos) L"
    by (simp add: tier2_met_iff)
  have "resolve g pos = Some slums \<longleftrightarrow> allMet (Some (residential_slums pos g))"
  proof
    assume "resolve g pos = Some slums"
    then show "allMet (Some (residential_slums pos g))"
      unfolding resolve_house [OF True] by (simp split: if_splits)
  next
    assume a: "allMet (Some (residential_slums pos g))"
    then have "\<not> allMet (Some (residential_tier2_residential pos g))"
      "\<not> allMet (Some (residential_villa pos g))" "\<not> allMet (Some (residential_hotel pos g))"
      using sl t2 v h by auto
    then show "resolve g pos = Some slums"
      unfolding resolve_house [OF True] using a by simp
  qed
  then show ?thesis using True sl by simp
next
  case False
  have "resolve g pos \<noteq> Some slums"
  proof
    assume r: "resolve g pos = Some slums"
    then obtain cur where c: "getCell g pos = Some cur" using resolve_Some_occupied by blast
    with r have "allMet (map_of (getUpgradesForTile cur pos g) slums)"
      using appliedUpgrade_Some by (fastforce simp: resolve_def)
    then have "allMet (Some (residential_slums pos g))"
      by (simp add: slums_candidate split: if_splits)
    then show False using False by (simp add: slums_met_iff)
  qed
  then show ?thesis using False by simp
qed

text \<open>
  C4 (amended). The Slums candidate is satisfied exactly when the tile is a house and its
  superblock holds four or more residential tiles, no leisure tile and no education tile,
  and the resolver turns a tile into slums exactly then. Only a slums tile has the
  downgrade candidate, under the key
  house; it is satisfied exactly when the superblock holds a leisure tile or an education
  tile, and the resolver then turns the slums back into a house unless Tier-2 Residential,
  which stands before it in the order, is satisfied as well. On a board that holds exactly
  three houses, all in one superblock, and nothing else, with score 0: placing a fourth
  residential tile in that superblock turns all four cells into slums and leaves the score
  at -24; then placing a leisure tile on a free cell of that superblock turns every one of
  the four slums back into a house at no points, after which a house that is not an edge
  cell (the centre) and has the new yard as an orthogonal neighbour goes on to Villa for
  18 points; every other one of the four stays a house, and the yard stays a yard.
\<close>

theorem slums_round_trip:
  "map_of (getUpgradesForTile tile pos g) house =
     (if tile = slums then Some (slumsDowngrade_house pos g) else None)
   \<and> (allMet (Some (slumsDowngrade_house pos g)) \<longleftrightarrow>
        getCell g pos = Some slums
        \<and> (0 < countInSuperblock g (superblockRow pos) (superblockCol pos) L
           \<or> 0 < countInSuperblock g (superblockRow pos) (superblockCol pos) E))
   \<and> (allMet (Some (residential_slums pos g)) \<longleftrightarrow>
        getCell g pos = Some house
        \<and> 4 \<le> countInSuperblock g (superblockRow pos) (superblockCol pos) R
        \<and> countInSuperblock g (superblockRow pos) (superblockCol pos) L = 0
        \<and> countInSuperblock g (superblockRow pos) (superblockCol pos) E = 0)
   \<and> (resolve g pos = Some slums \<longleftrightarrow>
        getCell g pos = Some house
        \<and> 4 \<le> countInSuperblock g (superblockRow pos) (superblockCol pos) R
        \<and> countInSuperblock g (superblockRow pos) (superblockCol pos) L = 0
        \<and> countInSuperblock g (superblockRow pos) (superblockCol pos) E = 0)
   \<and> (resolve g pos = Some house \<longleftrightarrow>
        getCell g pos = Some slums
        \<and> (0 < countInSuperblock g (superblockRow pos) (superblockCol pos) L
           \<or> 0 < countInSuperblock g (superblockRow pos) (superblockCol pos) E)
        \<and> \<not> (3 \<le> countInSuperblock g (superblockRow pos) (superblockCol pos) R
             \<and> 1 \<le> countInSuperblock g (superblockRow pos) (superblockCol pos) L
             \<and> 1 \<le> countInSuperblock g (superblockRow pos) (superblockCol pos) C
             \<and> 1 \<le> countInSuperblock g (superblockRow pos) (superblockCol pos) E))
   \<and> (distinct [p1, p2, p3, p4, y]
        \<and> set [p1, p2, p3, p4, y] \<subseteq> set (superblockPositions sbRow sbCol)
        \<and> grid_wf (grid s)
        \<and> (\<forall>q. getCell (grid s) q = (if q \<in> {p1, p2, p3} then Some house else None))
        \<and> deck s = R # L # rest
        \<and> score s = 0 \<longrightarrow>
      (\<exists>g1 g2. grid_wf g1 \<and> grid_wf g2
        \<and> placeTile rnd1 s p4 =
            Inr (True, s\<lparr>deck := fillDeck rnd1 (L # rest), grid := g1, score := - 24, turn := turn s + 1\<rparr>)
        \<and> (\<forall>q. getCell g1 q = (if q \<in> {p1, p2, p3, p4} then Some slums else None))
        \<and> placeTile rnd2 (s\<lparr>deck := fillDeck rnd1 (L # rest), grid := g1, score := - 24, turn := turn s + 1\<rparr>) y =
            Inr (True, s\<lparr>deck := fillDeck rnd2 (tl (fillDeck rnd1 (L # rest))), grid := g2,
                         score := - 24 + 18 * int (card {q \<in> {p1, p2, p3, p4}.
                                                      \<not> isNearRoad q \<and> y \<in> set (neighbours q)}),
                         turn := turn s + 2\<rparr>)
        \<and> (\<forall>q. getCell g2 q =
              (if q = y then Some yard
               else if q \<in> {p1, p2, p3, p4}
                    then (if \<not> isNearRoad q \<and> y \<in> set (neighbours q) then Some villa else Some house)
                    else None))))"
proof (intro conjI impI)
  show "map_of (getUpgradesForTile tile pos g) house =
     (if tile = slums then Some (slumsDowngrade_house pos g) else None)"
    by (rule house_candidate)
  show "allMet (Some (slumsDowngrade_house pos g)) \<longleftrightarrow>
        getCell g pos = Some slums
        \<and> (0 < countInSuperblock g (superblockRow pos) (superblockCol pos) L
           \<or> 0 < countInSuperblock g (superblockRow pos) (superblockCol pos) E)"
    by (rule slumsDowngrade_met_iff)
  show "allMet (Some (residential_slums pos g)) \<longleftrightarrow>
        getCell g pos = Some house
        \<and> 4 \<le> countInSuperblock g (superblockRow pos) (superblockCol pos) R
        \<and> countInSuperblock g (superblockRow pos) (superblockCol pos) L = 0
        \<and> countInSuperblock g (superblockRow pos) (superblockCol pos) E = 0"
    by (rule slums_met_iff)
  show "resolve g pos = Some slums \<longleftrightarrow>
        getCell g pos = Some house
        \<and> 4 \<le> countInSuperblock g (superblockRow pos) (superblockCol pos) R
        \<and> countInSuperblock g (superblockRow pos) (superblockCol pos) L = 0
        \<and> countInSuperblock g (superblockRow pos) (superblockCol pos) E = 0"
    by (rule resolve_to_slums_iff)
  show "resolve g pos = Some house \<longleftrightarrow>
        getCell g pos = Some slums
        \<and> (0 < countInSuperblock g (superblockRow pos) (superblockCol pos) L
           \<or> 0 < countInSuperblock g (superblockRow pos) (superblockCol pos) E)
        \<and> \<not> (3 \<le> countInSuperblock g (superblockRow pos) (superblockCol pos) R
             \<and> 1 \<le> countInSuperblock g (superblockRow pos) (superblockCol pos) L
             \<and> 1 \<le> countInSuperblock g (superblockRow pos) (superblockCol pos) C
             \<and> 1 \<le> countInSuperblock g (superblockRow pos) (superblockCol pos) E)"
    by (rule resolve_to_house_iff)
next
  assume a: "distinct [p1, p2, p3, p4, y]
        \<and> set [p1, p2, p3, p4, y] \<subseteq> set (superblockPositions sbRow sbCol)
        \<and> grid_wf (grid s)
        \<and> (\<forall>q. getCell (grid s) q = (if q \<in> {p1, p2, p3} then Some house else None))
        \<and> deck s = R # L # rest
        \<and> score s = 0"
  show "\<exists>g1 g2. grid_wf g1 \<and> grid_wf g2
        \<and> placeTile rnd1 s p4 =
            Inr (True, s\<lparr>deck := fillDeck rnd1 (L # rest), grid := g1, score := - 24, turn := turn s + 1\<rparr>)
        \<and> (\<forall>q. getCell g1 q = (if q \<in> {p1, p2, p3, p4} then Some slums else None))
        \<and> placeTile rnd2 (s\<lparr>deck := fillDeck rnd1 (L # rest), grid := g1, score := - 24, turn := turn s + 1\<rparr>) y =
            Inr (True, s\<lparr>deck := fillDeck rnd2 (tl (fillDeck rnd1 (L # rest))), grid := g2,
                         score := - 24 + 18 * int (card {q \<in> {p1, p2, p3, p4}.
                                                      \<not> isNearRoad q \<and> y \<in> set (neighbours q)}),
                         turn := turn s + 2\<rparr>)
        \<and> (\<forall>q. getCell g2 q =
              (if q = y then Some yard
               else if q \<in> {p1, p2, p3, p4}
                    then (if \<not> isNearRoad q \<and> y \<in> set (neighbours q) then Some villa else Some house)
                    else None))"
    by (rule round_trip_placements)
       (use a in \<open>blast+\<close>)
qed

theorem slums_round_trip_witness:
  "placeTile (\<lambda>k. R) rt_start (mkPos 0 0 1 0) = Inr (True, rt_slums)
   \<and> placeTile (\<lambda>k. R) rt_slums (mkPos 0 0 1 1) = Inr (True, rt_reverted)
   \<and> resolve slumsBoard (mkPos 0 0 0 0) = Some slums
   \<and> resolve revertBoard (mkPos 0 0 0 0) = Some house
   \<and> resolve revertSchoolBoard (mkPos 0 0 0 0) = Some house
   \<and> \<not> allMet (Some (slumsDowngrade_house (mkPos 0 0 0 0) slumsOnlyBoard))
   \<and> resolve slumsOnlyBoard (mkPos 0 0 0 0) \<noteq> Some house"
proof -
  have p: "superblockRow (mkPos 0 0 0 0) = 0" "superblockCol (mkPos 0 0 0 0) = 0"
    by (simp_all add: mkPos_def)
  have prem: "distinct [mkPos 0 0 0 0, mkPos 0 0 0 1, mkPos 0 0 0 2, mkPos 0 0 1 0, mkPos 0 0 1 1]
        \<and> set [mkPos 0 0 0 0, mkPos 0 0 0 1, mkPos 0 0 0 2, mkPos 0 0 1 0, mkPos 0 0 1 1]
            \<subseteq> set (superblockPositions 0 0)
        \<and> grid_wf (grid rt_start)
        \<and> (\<forall>q. getCell (grid rt_start) q =
              (if q \<in> {mkPos 0 0 0 0, mkPos 0 0 0 1, mkPos 0 0 0 2} then Some house else None))
        \<and> deck rt_start = R # L # [R, L, C]
        \<and> score rt_start = 0"
    by (intro conjI) (rule rt_cells rt_start_board)+
  note trip = slums_round_trip [THEN conjunct2, THEN conjunct2, THEN conjunct2, THEN conjunct2,
      THEN conjunct2, THEN mp, OF prem]
  have run: "placeTile (\<lambda>k. R) rt_start (mkPos 0 0 1 0) = Inr (True, rt_slums)
      \<and> placeTile (\<lambda>k. R) rt_slums (mkPos 0 0 1 1) = Inr (True, rt_reverted)"
    by (rule rt_test_run_from [OF trip])
  note to_slums = slums_round_trip [THEN conjunct2, THEN conjunct2, THEN conjunct2, THEN conjunct1]
  note to_house = slums_round_trip [THEN conjunct2, THEN conjunct2, THEN conjunct2, THEN conjunct2,
      THEN conjunct1]
  note met = slums_round_trip [THEN conjunct2, THEN conjunct1]
  have a: "resolve slumsBoard (mkPos 0 0 0 0) = Some slums"
    unfolding to_slums p by (simp add: slumsBoard_def accessor_defs)
  have b: "resolve revertBoard (mkPos 0 0 0 0) = Some house"
    unfolding to_house p by (simp add: revertBoard_def accessor_defs)
  have c: "resolve revertSchoolBoard (mkPos 0 0 0 0) = Some house"
    unfolding to_house p by (simp add: revertSchoolBoard_def accessor_defs)
  have d: "\<not> allMet (Some (slumsDowngrade_house (mkPos 0 0 0 0) slumsOnlyBoard))"
    unfolding met p by (simp add: slumsOnlyBoard_def accessor_defs)
  have e: "resolve slumsOnlyBoard (mkPos 0 0 0 0) \<noteq> Some house"
    unfolding to_house p by (simp add: slumsOnlyBoard_def accessor_defs)
  show ?thesis using run a b c d e by simp
qed

text \<open>
  Three runs of the code outside that statement. With the fourth house at the centre and
  the yard next to it, the centre ends as a villa and the score as -6. From the reachable
  store \<open>pend_store12\<close>, whose superblock (1,0) holds three houses and nothing else, a
  fourth house in that superblock turns the four into slums, but the same cascade turns
  the two shops of superblock (0,0) into restaurants, and the score goes from 0 to 16. And
  a slums tile with a yard, a shop and a school in its superblock becomes Tier-2
  Residential, not a house.
\<close>

theorem slums_round_trip_exceptions:
  "score rt_start = 0
   \<and> placeTile (\<lambda>k. R) rt_start (mkPos 0 0 1 1) = Inr (True, rt_slums_centre)
   \<and> getCell (grid rt_slums_centre) (mkPos 0 0 1 1) = Some slums
   \<and> score rt_slums_centre = - 24
   \<and> placeTile (\<lambda>k. R) rt_slums_centre (mkPos 0 0 1 0) = Inr (True, rt_villa)
   \<and> getCell (grid rt_villa) (mkPos 0 0 1 1) = Some villa
   \<and> score rt_villa = - 6
   \<and> reachable pend_store12
   \<and> score pend_store12 = 0
   \<and> map (getCell (grid pend_store12)) (superblockPositions 1 0) =
        [Some house, Some house, Some house, None, None, None, None, None, None]
   \<and> placeTile (\<lambda>k. R) pend_store12 (mkPos 1 0 1 0) = Inr (True, spill_store)
   \<and> map (getCell (grid spill_store)) (superblockPositions 1 0) =
        [Some slums, Some slums, Some slums, Some slums, None, None, None, None, None]
   \<and> getCell (grid pend_store12) (mkPos 0 0 0 0) = Some shop
   \<and> getCell (grid spill_store) (mkPos 0 0 0 0) = Some restaurant
   \<and> getCell (grid pend_store12) (mkPos 0 0 0 1) = Some shop
   \<and> getCell (grid spill_store) (mkPos 0 0 0 1) = Some restaurant
   \<and> score spill_store = 16
   \<and> getCell slumsTier2Board (mkPos 0 0 0 0) = Some slums
   \<and> countInSuperblock slumsTier2Board 0 0 L = 1
   \<and> resolve slumsTier2Board (mkPos 0 0 0 0) = Some tier2_residential"
proof -
  have a: "score rt_start = 0" "score rt_slums_centre = - 24" "score rt_villa = - 6"
    by (simp_all add: rt_start_def rt_slums_centre_def rt_villa_def)
  have b: "getCell (grid rt_slums_centre) (mkPos 0 0 1 1) = Some slums"
    "getCell (grid rt_villa) (mkPos 0 0 1 1) = Some villa"
    by (simp_all add: rt_slums_centre_def rt_villa_def getCell_prefill_empty valid_mkPos)
       (simp_all add: mkPos_def)
  have c: "score pend_store12 = 0" "score spill_store = 16"
    by (simp_all add: pend_store12_def spill_store_def)
  have d: "map (getCell (grid pend_store12)) (superblockPositions 1 0) =
        [Some house, Some house, Some house, None, None, None, None, None, None]"
    "map (getCell (grid spill_store)) (superblockPositions 1 0) =
        [Some slums, Some slums, Some slums, Some slums, None, None, None, None, None]"
    "getCell (grid pend_store12) (mkPos 0 0 0 0) = Some shop"
    "getCell (grid spill_store) (mkPos 0 0 0 0) = Some restaurant"
    "getCell (grid pend_store12) (mkPos 0 0 0 1) = Some shop"
    "getCell (grid spill_store) (mkPos 0 0 0 1) = Some restaurant"
    by (simp_all add: pend_store12_def spill_store_def pend_board12_def spill_board2_def accessor_defs)
  have e: "getCell slumsTier2Board (mkPos 0 0 0 0) = Some slums"
    "countInSuperblock slumsTier2Board 0 0 L = 1"
    by (simp_all add: slumsTier2Board_def accessor_defs)
  have f: "resolve slumsTier2Board (mkPos 0 0 0 0) = Some tier2_residential"
    by (simp add: resolve_def slumsTier2Board_def rule_defs accessor_defs)
  show ?thesis
    using rt_villa_run a b c d e f pend_reachable12 spill_place by blast
qed

theorem category_preserved_witness:
  "getCell slumsBoard (mkPos 0 0 0 0) = Some house
   \<and> resolve slumsBoard (mkPos 0 0 0 0) = Some slums
   \<and> tileToCategory slums = tileToCategory house
   \<and> placeTile (\<lambda>k. R) rt_start (mkPos 0 0 1 0) = Inr (True, rt_slums)
   \<and> getCell (grid rt_start) (mkPos 0 0 0 0) = Some house
   \<and> (\<exists>t1. getCell (grid rt_slums) (mkPos 0 0 0 0) = Some t1 \<and> tileToCategory t1 = R)
   \<and> (\<exists>t1. getCell (grid rt_slums) (mkPos 0 0 1 0) = Some t1 \<and> tileToCategory t1 = R)
   \<and> placement\<^sup>*\<^sup>* rt_start rt_reverted
   \<and> (\<exists>t1. getCell (grid rt_reverted) (mkPos 0 0 0 0) = Some t1 \<and> tileToCategory t1 = R)"
proof -
  have c: "getCell slumsBoard (mkPos 0 0 0 0) = Some house"
    and r: "resolve slumsBoard (mkPos 0 0 0 0) = Some slums"
    by (simp_all add: slumsBoard_def resolve_def rule_defs accessor_defs)
  have m: "map_of (getUpgradesForTile house (mkPos 0 0 0 0) slumsBoard) slums
           = Some (residential_slums (mkPos 0 0 0 0) slumsBoard)"
    by (simp add: getUpgradesForTile_def residentialUpgrades_def)
  have p: "placeTile (\<lambda>k. R) rt_start (mkPos 0 0 1 0) = Inr (True, rt_slums)"
    using rt_test_run by simp
  have v: "valid_pos (mkPos 0 0 1 0)" by (simp add: valid_mkPos)
  have h: "getCell (grid rt_start) (mkPos 0 0 0 0) = Some house" "hd (deck rt_start) = R"
    by (simp_all add: rt_start_def getCell_prefill_empty valid_mkPos)
  have v': "valid_pos (mkPos 0 0 1 1)" by (simp add: valid_mkPos)
  have "placement rt_start rt_slums"
    unfolding placement_def using rt_test_run v by blast
  moreover have "placement rt_slums rt_reverted"
    unfolding placement_def using rt_test_run v' by blast
  ultimately have seq: "placement\<^sup>*\<^sup>* rt_start rt_reverted" by auto
  note th = category_preserved [of house "mkPos 0 0 0 0" slumsBoard slums
      "residential_slums (mkPos 0 0 0 0) slumsBoard" rt_start "mkPos 0 0 1 0" "\<lambda>k. R" True rt_slums
      rt_start rt_reverted "mkPos 0 0 0 0" house]
  from th rt_start_board(1) seq h(1)
  have a4: "\<exists>t1. getCell (grid rt_reverted) (mkPos 0 0 0 0) = Some t1 \<and> tileToCategory t1 = tileToCategory house"
    by blast
  from th c r have a1: "tileToCategory slums = tileToCategory house" by blast
  from th rt_start_board(1) v p h(1)
  have a2: "\<exists>t1. getCell (grid rt_slums) (mkPos 0 0 0 0) = Some t1 \<and> tileToCategory t1 = tileToCategory house"
    by blast
  from th rt_start_board(1) v p
  have a3: "\<exists>t1. getCell (grid rt_slums) (mkPos 0 0 1 0) = Some t1 \<and> tileToCategory t1 = hd (deck rt_start)"
    by blast
  show ?thesis using c r a1 p h a2 a3 seq a4 by simp
qed

section \<open>The score of the slums downgrade\<close>



end
